theory Spec2Isabelle
  imports Complex_Main "HOL-Library.Log_Nat"
begin

section \<open>Python values used by the validator\<close>

text \<open>
  The thesis validator (\<^verbatim>\<open>app/services/thesis_validation/validator.py\<close>) works on Python
  strings, which are sequences of Unicode code points. The Ukrainian heading and the caption
  markers it looks for lie outside Latin-1, so a string is modelled as the list of its code
  points. \<open>u\<close> injects an ASCII literal.
\<close>

type_synonym ustr = "nat list"

definition u :: "string \<Rightarrow> ustr" where
  "u s = map of_char s"

text \<open>
  \<^verbatim>\<open>str.isspace\<close> for one code point. \<^verbatim>\<open>str.strip()\<close> and the regular expression class
  \<^verbatim>\<open>\s\<close> (on \<^verbatim>\<open>str\<close> patterns) both use this set.
\<close>

definition isspace :: "nat \<Rightarrow> bool" where
  "isspace c = (c \<in> set [9, 10, 11, 12, 13, 28, 29, 30, 31, 32, 133, 160, 5760,
                 8192, 8193, 8194, 8195, 8196, 8197, 8198, 8199, 8200, 8201, 8202,
                 8232, 8233, 8239, 8287, 12288])"

definition strip :: "ustr \<Rightarrow> ustr" where
  "strip s = rev (dropWhile isspace (rev (dropWhile isspace s)))"

text \<open>\<^verbatim>\<open>sep.join(parts)\<close>.\<close>

fun join :: "ustr \<Rightarrow> ustr list \<Rightarrow> ustr" where
  "join sep [] = []"
| "join sep [x] = x"
| "join sep (x # y # rest) = x @ sep @ join sep (y # rest)"

text \<open>
  \<^verbatim>\<open>re.sub(r"\s+", " ", text)\<close>: every maximal run of whitespace becomes one space. The flag
  says whether the previous code point was whitespace, that is, whether the current run has
  already been replaced.
\<close>

fun sub_ws :: "bool \<Rightarrow> ustr \<Rightarrow> ustr" where
  "sub_ws in_run [] = []"
| "sub_ws in_run (c # cs) =
     (if isspace c then (if in_run then sub_ws True cs else 32 # sub_ws True cs)
      else c # sub_ws False cs)"

text \<open>
  Case mapping (\<^verbatim>\<open>str.lower\<close>, \<^verbatim>\<open>str.upper\<close>) and the decimal digits matched by \<^verbatim>\<open>\d\<close>
  are tables of the Unicode database shipped with the interpreter, not part of the
  repository. The checks take them as a parameter, so every general theorem below holds for
  whatever tables the interpreter has.
\<close>

record unicode_db =
  str_lower :: "ustr \<Rightarrow> ustr"
  str_upper :: "ustr \<Rightarrow> ustr"
  isdecimal :: "nat \<Rightarrow> bool"

text \<open>
  A concrete instance for evaluating the checks on examples. It agrees with CPython on
  strings over Basic Latin (U+0000..U+007F) and the Cyrillic letters U+0400..U+045F, U+0490,
  U+0491; other code points are left unchanged and are not digits.
\<close>

definition lower_cp :: "nat \<Rightarrow> nat" where
  "lower_cp c =
     (if 65 \<le> c \<and> c \<le> 90 then c + 32
      else if 1024 \<le> c \<and> c \<le> 1039 then c + 80
      else if 1040 \<le> c \<and> c \<le> 1071 then c + 32
      else if c = 1168 then 1169
      else c)"

definition upper_cp :: "nat \<Rightarrow> nat" where
  "upper_cp c =
     (if 97 \<le> c \<and> c \<le> 122 then c - 32
      else if 1104 \<le> c \<and> c \<le> 1119 then c - 80
      else if 1072 \<le> c \<and> c \<le> 1103 then c - 32
      else if c = 1169 then 1168
      else c)"

definition basic_unicode :: unicode_db where
  "basic_unicode =
     \<lparr>str_lower = map lower_cp, str_upper = map upper_cp,
      isdecimal = (\<lambda>c. 48 \<le> c \<and> c \<le> 57)\<rparr>"

subsection \<open>Floats\<close>

text \<open>
  A Python float is an IEEE 754 double. It is modelled by the rational number it denotes;
  infinities and NaN are left out. Every arithmetic operation on floats gives the double
  nearest to the exact result, halves going to the even significand, and a decimal
  literal denotes the double nearest to it: \<open>fl\<close> is that rounding. A double has a
  significand of 53 bits, so the last place of a value between \<open>2 ^ e\<close> and
  \<open>2 ^ (e + 1)\<close> is worth \<open>2 ^ (e - 52)\<close>, and never less than \<open>2 ^ (- 1074)\<close>. Results
  beyond the largest double, which Python turns into an infinity, are not modelled; they
  need operands far beyond any length or font size.

  So \<^verbatim>\<open>a * b\<close> on floats is \<open>fl (a * b)\<close>, \<^verbatim>\<open>a - b\<close> is \<open>fl (a - b)\<close>, \<^verbatim>\<open>a / b\<close> is
  \<open>fl (a / b)\<close>, \<^verbatim>\<open>float(n)\<close> is \<open>fl (of_int n)\<close>, and \<^verbatim>\<open>25.4\<close> is \<open>fl (254 / 10)\<close>.
  \<^verbatim>\<open>abs\<close> and the comparisons are exact. The literals \<^verbatim>\<open>0.5\<close> and \<^verbatim>\<open>1.25\<close> and the
  integers are doubles as they stand.
\<close>

text \<open>\<^verbatim>\<open>round(x)\<close> on a float returns an integer, rounding halves to the even neighbour.\<close>

definition py_round :: "rat \<Rightarrow> int" where
  "py_round x =
     (let f = \<lfloor>x\<rfloor>; d = x - of_int f
      in if d < 1 / 2 then f else if d > 1 / 2 then f + 1
         else if even f then f else f + 1)"

text \<open>The binary exponent of a positive number: \<open>2 ^ ilog2 y \<le> y < 2 ^ (ilog2 y + 1)\<close>.\<close>

definition ilog2 :: "rat \<Rightarrow> int" where
  "ilog2 y = (if 1 \<le> y then bitlen \<lfloor>y\<rfloor> - 1 else - bitlen (\<lceil>1 / y\<rceil> - 1))"

definition fl :: "rat \<Rightarrow> rat" where
  "fl x =
     (if x = 0 then 0
      else let k = max (ilog2 \<bar>x\<bar> - 52) (- 1074)
           in of_int (py_round (x / 2 powi k)) * 2 powi k)"

subsection \<open>Regular expressions\<close>

text \<open>
  The validator uses \<^verbatim>\<open>re.match\<close> and \<^verbatim>\<open>re.search\<close> only as tests (is there a match?),
  with patterns built from character classes, concatenation and repetition. Such a test is
  decided by derivatives: \<open>deriv c r\<close> matches what \<open>r\<close> matches after reading \<open>c\<close>.
\<close>

datatype regex =
    Nul
  | Eps
  | Sym "nat \<Rightarrow> bool"
  | Alt regex regex
  | Seq regex regex
  | Star regex

fun nullable :: "regex \<Rightarrow> bool" where
  "nullable Nul = False"
| "nullable Eps = True"
| "nullable (Sym P) = False"
| "nullable (Alt r s) = (nullable r \<or> nullable s)"
| "nullable (Seq r s) = (nullable r \<and> nullable s)"
| "nullable (Star r) = True"

fun deriv :: "nat \<Rightarrow> regex \<Rightarrow> regex" where
  "deriv c Nul = Nul"
| "deriv c Eps = Nul"
| "deriv c (Sym P) = (if P c then Eps else Nul)"
| "deriv c (Alt r s) = Alt (deriv c r) (deriv c s)"
| "deriv c (Seq r s) =
     (if nullable r then Alt (Seq (deriv c r) s) (deriv c s) else Seq (deriv c r) s)"
| "deriv c (Star r) = Seq (deriv c r) (Star r)"

text \<open>\<^verbatim>\<open>re.match(r, s) is not None\<close>: some prefix of \<open>s\<close> matches \<open>r\<close>.\<close>

fun re_match :: "regex \<Rightarrow> ustr \<Rightarrow> bool" where
  "re_match r [] = nullable r"
| "re_match r (c # cs) = (nullable r \<or> re_match (deriv c r) cs)"

text \<open>\<^verbatim>\<open>re.search(r, s) is not None\<close>: a match starts at some position of \<open>s\<close>.\<close>

fun re_search :: "regex \<Rightarrow> ustr \<Rightarrow> bool" where
  "re_search r [] = nullable r"
| "re_search r (c # cs) = (re_match r (c # cs) \<or> re_search r cs)"

text \<open>
  The strings a pattern matches, to state that the two tests above are the ones of the
  usual semantics of regular expressions.
\<close>

inductive_set star :: "ustr set \<Rightarrow> ustr set" for L :: "ustr set" where
  star_empty: "[] \<in> star L"
| star_step: "x \<in> L \<Longrightarrow> y \<in> star L \<Longrightarrow> x @ y \<in> star L"

fun lang :: "regex \<Rightarrow> ustr set" where
  "lang Nul = {}"
| "lang Eps = {[]}"
| "lang (Sym P) = {[c] | c. P c}"
| "lang (Alt r s) = lang r \<union> lang s"
| "lang (Seq r s) = {x @ y | x y. x \<in> lang r \<and> y \<in> lang s}"
| "lang (Star r) = star (lang r)"

definition Plus :: "regex \<Rightarrow> regex" where
  "Plus r = Seq r (Star r)"

definition Chr :: "nat \<Rightarrow> regex" where
  "Chr c = Sym (\<lambda>x. x = c)"

fun Lit :: "ustr \<Rightarrow> regex" where
  "Lit [] = Eps"
| "Lit (c # cs) = Seq (Chr c) (Lit cs)"

section \<open>The report model\<close>

text \<open>\<^verbatim>\<open>app/services/thesis_validation/models.py\<close>.\<close>

datatype Severity = ERROR | WARNING

text \<open>
  A value of a \<^verbatim>\<open>details\<close> dictionary: an integer, a string or a float. The dictionary
  itself is an association list in insertion order.
\<close>

datatype detail = DInt int | DStr ustr | DFloat rat

text \<open>
  The message of a finding is a fixed sentence, for some codes with values spliced in by
  an f-string. Each constructor stands for one sentence of the source and carries the
  spliced values; how a float is printed is not modelled.
\<close>

datatype message =
    MSG_PAGE_NOT_A4
  | MSG_MARGIN_NOT_20MM
  | MSG_HEADER_FOOTER_PRESENT
  | MSG_HEADER_TOO_SHORT
  | MSG_NOT_CENTER ustr
  | MSG_TITLE_NOT_UPPERCASE
  | MSG_FONT_NAME_MISMATCH string ustr
  | MSG_FONT_SIZE_MISMATCH string rat
  | MSG_HEADER_NOT_BOLD string
  | MSG_AUTHORS_NOT_ITALIC
  | MSG_FONT_UNKNOWN string
  | MSG_AUTHORS_LIST_FORMAT
  | MSG_AUTHORS_INITIALS_PATTERN
  | MSG_BODY_NOT_JUSTIFIED
  | MSG_LINE_SPACING_MISMATCH
  | MSG_LINE_SPACING_ABSOLUTE
  | MSG_INDENT_MISMATCH
  | MSG_BODY_FONT_NAME_MISMATCH ustr
  | MSG_BODY_FONT_SIZE_MISMATCH rat
  | MSG_LITERATURE_MISSING
  | MSG_LITERATURE_NOT_AT_END
  | MSG_LITERATURE_ITEMS_FORMAT
  | MSG_CAPTION_SIZE_MISMATCH
  | MSG_LENGTH_TOO_SHORT
  | MSG_LENGTH_TOO_LONG

record ValidationIssue =
  code :: string
  severity :: Severity
  message :: message
  details :: "(string \<times> detail) list option"

record ValidationReport =
  ok :: bool
  issues :: "ValidationIssue list"

section \<open>The parsed document\<close>

text \<open>
  What the validator reads of a python-docx \<^verbatim>\<open>Document\<close>. A \<^verbatim>\<open>Length\<close> is an integer
  (python-docx derives it from \<^verbatim>\<open>int\<close>); an attribute the file does not set is \<^verbatim>\<open>None\<close>.
  A header or footer is given by the texts of its paragraphs.

  python-docx counts a \<^verbatim>\<open>Length\<close> in English Metric Units: 914400 to the inch, 36000 to
  the millimetre, 12700 to the point and 635 to the twip. \<^verbatim>\<open>int(...)\<close> of a page dimension,
  a margin or a first-line indent is therefore a count of these units. The validator
  compares the counts with constants that are counts of twips (1440 to the inch); a font
  size it reads in points, through \<^verbatim>\<open>Length.pt\<close>.
\<close>

datatype WD_ALIGN_PARAGRAPH =
  LEFT | CENTER | RIGHT | JUSTIFY | DISTRIBUTE | JUSTIFY_MED | JUSTIFY_HI | JUSTIFY_LOW
  | THAI_JUSTIFY

text \<open>
  \<^verbatim>\<open>paragraph_format.line_spacing\<close> is a float (a multiple of the line height) or a
  \<^verbatim>\<open>Length\<close>. \<open>Multiple\<close> holds the number the float denotes.
\<close>

datatype line_spacing_value = Multiple rat | Length int

record Run =
  r_text :: ustr
  r_font_name :: "ustr option"
  r_font_size :: "int option"
  r_bold :: "bool option"
  r_italic :: "bool option"

record Paragraph =
  p_text :: ustr
  p_alignment :: "WD_ALIGN_PARAGRAPH option"
  p_line_spacing :: "line_spacing_value option"
  p_first_line_indent :: "int option"
  p_runs :: "Run list"

record Section =
  page_width :: "int option"
  page_height :: "int option"
  top_margin :: "int option"
  bottom_margin :: "int option"
  left_margin :: "int option"
  right_margin :: "int option"
  header :: "ustr list option"
  footer :: "ustr list option"

record Document =
  sections :: "Section list"
  paragraphs :: "Paragraph list"

text \<open>\<^verbatim>\<open>Length.pt\<close>: the length as a float of points, \<^verbatim>\<open>self / float(12700)\<close>.\<close>

definition pt :: "int \<Rightarrow> rat" where
  "pt emu = fl (fl (of_int emu) / 12700)"

text \<open>
  What can go wrong in a run: the document cannot be loaded, or \<^verbatim>\<open>int(None)\<close> is
  evaluated because a section lacks a page dimension or a margin.
\<close>

datatype error = DocumentParseError | TypeError

fun py_int :: "int option \<Rightarrow> error + int" where
  "py_int None = Inl TypeError"
| "py_int (Some v) = Inr v"

section \<open>Rule configuration\<close>

definition REQUIRED_FONT :: ustr where
  "REQUIRED_FONT = u ''Times New Roman''"

definition REQUIRED_SIZE_PT :: rat where
  "REQUIRED_SIZE_PT = 14"

definition CAPTION_SIZE_PT :: rat where
  "CAPTION_SIZE_PT = 12"

definition MM_TO_INCH :: rat where
  "MM_TO_INCH = fl (1 / fl (254 / 10))"

definition TWIPS_PER_INCH :: rat where
  "TWIPS_PER_INCH = 1440"

definition MARGIN_20MM_TWIPS :: int where
  "MARGIN_20MM_TWIPS = py_round (fl (fl (20 * MM_TO_INCH) * TWIPS_PER_INCH))"

definition MARGIN_TWIPS_TOL :: int where
  "MARGIN_TWIPS_TOL = 40"

definition FONT_SIZE_TOL :: rat where
  "FONT_SIZE_TOL = 1 / 2"

definition INDENT_CM :: rat where
  "INDENT_CM = 125 / 100"

definition LINE_SPACING_TARGET :: rat where
  "LINE_SPACING_TARGET = fl (115 / 100)"

definition LINE_SPACING_TOL :: rat where
  "LINE_SPACING_TOL = fl (6 / 100)"

definition MIN_TEXT_CHARS :: nat where
  "MIN_TEXT_CHARS = 800"

definition MAX_TEXT_CHARS :: nat where
  "MAX_TEXT_CHARS = 6500"

record ThesisStyleRules =
  font_name :: ustr
  font_size_pt :: rat
  margin_twips :: int
  require_bold_header :: bool
  title_uppercase :: bool
  authors_italic :: bool
  header_centered :: bool
  body_justify :: bool
  line_spacing :: rat
  paragraph_indent_cm :: rat
  require_literature_block :: bool

text \<open>
  \<^verbatim>\<open>ThesisStyleRules()\<close>: every field at its default. The fields \<open>font_size_pt\<close>,
  \<open>line_spacing\<close> and \<open>paragraph_indent_cm\<close> hold the numbers the caller's floats denote.
\<close>

definition default_rules :: ThesisStyleRules where
  "default_rules =
     \<lparr>font_name = REQUIRED_FONT, font_size_pt = REQUIRED_SIZE_PT,
      margin_twips = MARGIN_20MM_TWIPS, require_bold_header = True,
      title_uppercase = True, authors_italic = True, header_centered = True,
      body_justify = True, line_spacing = LINE_SPACING_TARGET,
      paragraph_indent_cm = INDENT_CM, require_literature_block = True\<rparr>"

section \<open>Page setup\<close>

text \<open>
  \<^verbatim>\<open>_section_has_header_footer_text\<close>. The inner \<^verbatim>\<open>has_text\<close> returns at the first paragraph
  whose stripped text is non-empty. A missing header or footer object is falsy.
\<close>

fun has_text :: "ustr list \<Rightarrow> bool" where
  "has_text [] = False"
| "has_text (t # rest) = (if strip t \<noteq> [] then True else has_text rest)"

definition section_has_header_footer_text :: "Section \<Rightarrow> bool" where
  "section_has_header_footer_text s =
     (if (case header s of None \<Rightarrow> False | Some ps \<Rightarrow> has_text ps) then True
      else if (case footer s of None \<Rightarrow> False | Some ps \<Rightarrow> has_text ps) then True
      else False)"

definition page_not_a4_issue :: "nat \<Rightarrow> int \<Rightarrow> int \<Rightarrow> ValidationIssue" where
  "page_not_a4_issue idx w h =
     \<lparr>code = ''PAGE_NOT_A4'', severity = WARNING, message = MSG_PAGE_NOT_A4,
      details = Some [(''section'', DInt (int idx)), (''page_width_twips'', DInt w),
                      (''page_height_twips'', DInt h)]\<rparr>"

definition margin_issue :: "ThesisStyleRules \<Rightarrow> nat \<Rightarrow> string \<Rightarrow> int \<Rightarrow> ValidationIssue" where
  "margin_issue rules idx side_name v =
     \<lparr>code = ''MARGIN_NOT_20MM'', severity = ERROR, message = MSG_MARGIN_NOT_20MM,
      details = Some [(''section'', DInt (int idx)), (''side'', DStr (u side_name)),
                      (''twips'', DInt v), (''expected_twips'', DInt (margin_twips rules))]\<rparr>"

definition header_footer_issue :: "nat \<Rightarrow> ValidationIssue" where
  "header_footer_issue idx =
     \<lparr>code = ''HEADER_FOOTER_PRESENT'', severity = ERROR,
      message = MSG_HEADER_FOOTER_PRESENT,
      details = Some [(''section'', DInt (int idx))]\<rparr>"

text \<open>The loop over the four sides, in the order of the source's list.\<close>

fun check_margins :: "ThesisStyleRules \<Rightarrow> nat \<Rightarrow> (string \<times> int) list \<Rightarrow> ValidationIssue list" where
  "check_margins rules idx [] = []"
| "check_margins rules idx ((side_name, v) # rest) =
     (if \<bar>v - margin_twips rules\<bar> > MARGIN_TWIPS_TOL
      then [margin_issue rules idx side_name v] else [])
     @ check_margins rules idx rest"

text \<open>
  The body of the loop over sections: the findings appended for section \<open>idx\<close>, or the
  \<^verbatim>\<open>TypeError\<close> of the first \<^verbatim>\<open>int(None)\<close>.
\<close>

definition check_section :: "ThesisStyleRules \<Rightarrow> nat \<Rightarrow> Section \<Rightarrow> error + ValidationIssue list" where
  "check_section rules idx s =
     (case py_int (page_width s) of Inl e \<Rightarrow> Inl e | Inr w \<Rightarrow>
      case py_int (page_height s) of Inl e \<Rightarrow> Inl e | Inr h \<Rightarrow>
      case py_int (top_margin s) of Inl e \<Rightarrow> Inl e | Inr tm \<Rightarrow>
      case py_int (bottom_margin s) of Inl e \<Rightarrow> Inl e | Inr bm \<Rightarrow>
      case py_int (left_margin s) of Inl e \<Rightarrow> Inl e | Inr lm \<Rightarrow>
      case py_int (right_margin s) of Inl e \<Rightarrow> Inl e | Inr rm \<Rightarrow>
        Inr ((if \<not> (11700 \<le> w \<and> w \<le> 12150 \<and> 16600 \<le> h \<and> h \<le> 17050)
              then [page_not_a4_issue idx w h] else [])
             @ check_margins rules idx
                 [(''top'', tm), (''bottom'', bm), (''left'', lm), (''right'', rm)]
             @ (if section_has_header_footer_text s then [header_footer_issue idx] else [])))"

fun check_sections :: "ThesisStyleRules \<Rightarrow> nat \<Rightarrow> Section list \<Rightarrow> error + ValidationIssue list" where
  "check_sections rules idx [] = Inr []"
| "check_sections rules idx (s # rest) =
     (case check_section rules idx s of Inl e \<Rightarrow> Inl e | Inr found \<Rightarrow>
      case check_sections rules (Suc idx) rest of Inl e \<Rightarrow> Inl e | Inr later \<Rightarrow>
        Inr (found @ later))"

text \<open>\<^verbatim>\<open>_check_page_setup\<close>: \<^verbatim>\<open>enumerate(doc.sections)\<close> counts from 0.\<close>

definition check_page_setup :: "Document \<Rightarrow> ThesisStyleRules \<Rightarrow> error + ValidationIssue list" where
  "check_page_setup doc rules = check_sections rules 0 (sections doc)"

section \<open>Header structure\<close>

text \<open>
  The comprehension \<^verbatim>\<open>[p for p in doc.paragraphs if (p.text or "").strip()]\<close>, which three
  of the checks start with.
\<close>

definition nonempty_paragraphs :: "Document \<Rightarrow> Paragraph list" where
  "nonempty_paragraphs doc = filter (\<lambda>p. strip (p_text p) \<noteq> []) (paragraphs doc)"

subsection \<open>Run-level font check\<close>

text \<open>The six flags \<^verbatim>\<open>_check_paragraph_font\<close> sets while it walks the runs.\<close>

record font_flags =
  any_run :: bool
  bad_name :: bool
  bad_size :: bool
  bad_bold :: bool
  bad_italic :: bool
  unknown_font :: bool

definition no_flags :: font_flags where
  "no_flags =
     \<lparr>any_run = False, bad_name = False, bad_size = False, bad_bold = False,
      bad_italic = False, unknown_font = False\<rparr>"

text \<open>One non-blank run. \<^verbatim>\<open>r.bold is not True\<close> holds for \<^verbatim>\<open>False\<close> and for \<^verbatim>\<open>None\<close>.\<close>

definition observe_run ::
  "ThesisStyleRules \<Rightarrow> bool \<Rightarrow> bool \<Rightarrow> Run \<Rightarrow> font_flags \<Rightarrow> font_flags" where
  "observe_run rules must_bold must_italic r f0 =
     (let f1 = f0\<lparr>any_run := True\<rparr>;
          f2 = (case r_font_name r of
                  None \<Rightarrow> f1\<lparr>unknown_font := True\<rparr>
                | Some name \<Rightarrow> if name \<noteq> font_name rules then f1\<lparr>bad_name := True\<rparr> else f1);
          f3 = (case r_font_size r of
                  None \<Rightarrow> f2\<lparr>unknown_font := True\<rparr>
                | Some sz \<Rightarrow>
                    if \<bar>fl (pt sz - font_size_pt rules)\<bar> > FONT_SIZE_TOL
                    then f2\<lparr>bad_size := True\<rparr> else f2);
          f4 = (if must_bold \<and> r_bold r \<noteq> Some True then f3\<lparr>bad_bold := True\<rparr> else f3)
      in if must_italic \<and> r_italic r \<noteq> Some True then f4\<lparr>bad_italic := True\<rparr> else f4)"

fun scan_runs ::
  "ThesisStyleRules \<Rightarrow> bool \<Rightarrow> bool \<Rightarrow> Run list \<Rightarrow> font_flags \<Rightarrow> font_flags" where
  "scan_runs rules must_bold must_italic [] f = f"
| "scan_runs rules must_bold must_italic (r # rs) f =
     (if strip (r_text r) = [] then scan_runs rules must_bold must_italic rs f
      else scan_runs rules must_bold must_italic rs
             (observe_run rules must_bold must_italic r f))"

definition font_name_issue :: "ThesisStyleRules \<Rightarrow> string \<Rightarrow> ustr \<Rightarrow> ValidationIssue" where
  "font_name_issue rules where' text =
     \<lparr>code = ''FONT_NAME_MISMATCH'', severity = ERROR,
      message = MSG_FONT_NAME_MISMATCH where' (font_name rules),
      details = Some [(''where'', DStr (u where')), (''text'', DStr text)]\<rparr>"

definition font_size_issue :: "ThesisStyleRules \<Rightarrow> string \<Rightarrow> ustr \<Rightarrow> ValidationIssue" where
  "font_size_issue rules where' text =
     \<lparr>code = ''FONT_SIZE_MISMATCH'', severity = ERROR,
      message = MSG_FONT_SIZE_MISMATCH where' (font_size_pt rules),
      details = Some [(''where'', DStr (u where')), (''text'', DStr text)]\<rparr>"

definition not_bold_issue :: "string \<Rightarrow> ustr \<Rightarrow> ValidationIssue" where
  "not_bold_issue where' text =
     \<lparr>code = ''HEADER_NOT_BOLD'', severity = ERROR, message = MSG_HEADER_NOT_BOLD where',
      details = Some [(''where'', DStr (u where')), (''text'', DStr text)]\<rparr>"

definition not_italic_issue :: "string \<Rightarrow> ustr \<Rightarrow> ValidationIssue" where
  "not_italic_issue where' text =
     \<lparr>code = ''AUTHORS_NOT_ITALIC'', severity = ERROR, message = MSG_AUTHORS_NOT_ITALIC,
      details = Some [(''where'', DStr (u where')), (''text'', DStr text)]\<rparr>"

definition font_unknown_issue :: "string \<Rightarrow> ValidationIssue" where
  "font_unknown_issue where' =
     \<lparr>code = ''FONT_UNKNOWN'', severity = WARNING, message = MSG_FONT_UNKNOWN where',
      details = Some [(''where'', DStr (u where'))]\<rparr>"

text \<open>\<^verbatim>\<open>_check_paragraph_font\<close>.\<close>

definition check_paragraph_font ::
  "Paragraph \<Rightarrow> ThesisStyleRules \<Rightarrow> bool \<Rightarrow> bool \<Rightarrow> string \<Rightarrow> ValidationIssue list" where
  "check_paragraph_font p rules must_bold must_italic where' =
     (let text = strip (p_text p)
      in if text = [] then []
         else
           let seen = scan_runs rules must_bold must_italic (p_runs p) no_flags;
               f = (if \<not> any_run seen then seen\<lparr>unknown_font := True\<rparr> else seen)
           in (if bad_name f then [font_name_issue rules where' text] else [])
              @ (if bad_size f then [font_size_issue rules where' text] else [])
              @ (if must_bold \<and> bad_bold f then [not_bold_issue where' text] else [])
              @ (if must_italic \<and> bad_italic f then [not_italic_issue where' text] else [])
              @ (if unknown_font f \<and> \<not> (bad_name f \<or> bad_size f)
                 then [font_unknown_issue where'] else []))"

subsection \<open>The three header lines\<close>

definition header_too_short_issue :: ValidationIssue where
  "header_too_short_issue =
     \<lparr>code = ''HEADER_TOO_SHORT'', severity = ERROR, message = MSG_HEADER_TOO_SHORT,
      details = None\<rparr>"

definition not_center_issue :: "string \<Rightarrow> Paragraph \<Rightarrow> ustr \<Rightarrow> ValidationIssue" where
  "not_center_issue c p label =
     \<lparr>code = c, severity = ERROR, message = MSG_NOT_CENTER label,
      details = Some [(''text'', DStr (strip (p_text p)))]\<rparr>"

fun check_centered :: "(string \<times> Paragraph \<times> ustr) list \<Rightarrow> ValidationIssue list" where
  "check_centered [] = []"
| "check_centered ((c, p, label) # rest) =
     (if p_alignment p \<noteq> Some CENTER then [not_center_issue c p label] else [])
     @ check_centered rest"

text \<open>The labels spliced into the centering message: the Ukrainian words for title, authors, organisation.\<close>

definition label_title :: ustr where
  "label_title = [1085, 1072, 1079, 1074, 1072]"

definition label_authors :: ustr where
  "label_authors = [1072, 1074, 1090, 1086, 1088, 1080]"

definition label_org :: ustr where
  "label_org = [1086, 1088, 1075, 1072, 1085, 1110, 1079, 1072, 1094, 1110, 1103]"

definition title_not_uppercase_issue :: "ustr \<Rightarrow> ValidationIssue" where
  "title_not_uppercase_issue title_text =
     \<lparr>code = ''TITLE_NOT_UPPERCASE'', severity = ERROR, message = MSG_TITLE_NOT_UPPERCASE,
      details = Some [(''title'', DStr title_text)]\<rparr>"

definition authors_list_format_issue :: "Paragraph \<Rightarrow> ValidationIssue" where
  "authors_list_format_issue authors_p =
     \<lparr>code = ''AUTHORS_LIST_FORMAT'', severity = WARNING, message = MSG_AUTHORS_LIST_FORMAT,
      details = Some [(''authors_line'', DStr (strip (p_text authors_p)))]\<rparr>"

definition authors_initials_issue :: "Paragraph \<Rightarrow> ValidationIssue" where
  "authors_initials_issue authors_p =
     \<lparr>code = ''AUTHORS_INITIALS_PATTERN'', severity = WARNING,
      message = MSG_AUTHORS_INITIALS_PATTERN,
      details = Some [(''authors_line'', DStr (strip (p_text authors_p)))]\<rparr>"

text \<open>
  The classes of the initials pattern: Latin and Cyrillic letters with the Ukrainian
  \<^verbatim>\<open>U+0406 U+0407 U+0404 U+0490\<close> and their small forms, the apostrophe \<^verbatim>\<open>U+2019\<close> and
  the hyphen; capitals only for an initial.
\<close>

definition surname_char :: "nat \<Rightarrow> bool" where
  "surname_char c =
     (65 \<le> c \<and> c \<le> 90 \<or> 97 \<le> c \<and> c \<le> 122 \<or> 1040 \<le> c \<and> c \<le> 1071
      \<or> c = 1030 \<or> c = 1031 \<or> c = 1028 \<or> c = 1168
      \<or> 1072 \<le> c \<and> c \<le> 1103 \<or> c = 1110 \<or> c = 1111 \<or> c = 1108 \<or> c = 1169
      \<or> c = 8217 \<or> c = 45)"

definition initial_char :: "nat \<Rightarrow> bool" where
  "initial_char c =
     (65 \<le> c \<and> c \<le> 90 \<or> 1040 \<le> c \<and> c \<le> 1071
      \<or> c = 1030 \<or> c = 1031 \<or> c = 1028 \<or> c = 1168)"

definition initials_pattern :: regex where
  "initials_pattern =
     Seq (Plus (Sym surname_char))
       (Seq (Plus (Sym isspace))
         (Seq (Sym initial_char)
           (Seq (Chr 46)
             (Seq (Star (Sym isspace))
               (Seq (Sym initial_char) (Chr 46))))))"

text \<open>
  \<^verbatim>\<open>_check_header_structure\<close>. With fewer than three non-empty paragraphs it returns a new
  list holding the one finding; otherwise the first three are title, authors, organisation.
\<close>

definition check_header_structure ::
  "unicode_db \<Rightarrow> Document \<Rightarrow> ThesisStyleRules \<Rightarrow> ValidationIssue list" where
  "check_header_structure U doc rules =
     (let ps = nonempty_paragraphs doc
      in if length ps < 3 then [header_too_short_issue]
         else
           let title_p = ps ! 0; authors_p = ps ! 1; org_p = ps ! 2;
               title_text = strip (p_text title_p)
           in (if header_centered rules
               then check_centered
                      [(''TITLE_NOT_CENTER'', title_p, label_title),
                       (''AUTHORS_NOT_CENTER'', authors_p, label_authors),
                       (''ORG_NOT_CENTER'', org_p, label_org)]
               else [])
              @ (if title_uppercase rules \<and> title_text \<noteq> []
                    \<and> title_text \<noteq> str_upper U title_text
                 then [title_not_uppercase_issue title_text] else [])
              @ check_paragraph_font title_p rules True False ''title''
              @ check_paragraph_font authors_p rules True (authors_italic rules) ''authors''
              @ check_paragraph_font org_p rules True False ''organization''
              @ (if 44 \<notin> set (p_text authors_p)
                 then [authors_list_format_issue authors_p] else [])
              @ (if \<not> re_search initials_pattern (p_text authors_p)
                 then [authors_initials_issue authors_p] else []))"

section \<open>Body paragraphs\<close>

text \<open>The literature heading, the ten letters of the Ukrainian word in lower case.\<close>

definition LITERATURE :: ustr where
  "LITERATURE = [1083, 1110, 1090, 1077, 1088, 1072, 1090, 1091, 1088, 1072]"

definition is_literature_heading :: "unicode_db \<Rightarrow> Paragraph \<Rightarrow> bool" where
  "is_literature_heading U p = (str_lower U (strip (p_text p)) = LITERATURE)"

text \<open>
  The search loops \<^verbatim>\<open>for i, p in enumerate(ps): if ...: pos = i; break\<close>: the index of the
  first element that passes the test, \<^verbatim>\<open>None\<close> when there is none.
\<close>

fun first_index :: "('a \<Rightarrow> bool) \<Rightarrow> 'a list \<Rightarrow> nat option" where
  "first_index P [] = None"
| "first_index P (x # xs) =
     (if P x then Some 0
      else case first_index P xs of None \<Rightarrow> None | Some i \<Rightarrow> Some (Suc i))"

definition body_not_justified_issue :: "ustr \<Rightarrow> ValidationIssue" where
  "body_not_justified_issue txt =
     \<lparr>code = ''BODY_NOT_JUSTIFIED'', severity = WARNING, message = MSG_BODY_NOT_JUSTIFIED,
      details = Some [(''paragraph'', DStr (take 80 txt))]\<rparr>"

definition line_spacing_mismatch_issue :: "ThesisStyleRules \<Rightarrow> rat \<Rightarrow> ValidationIssue" where
  "line_spacing_mismatch_issue rules got =
     \<lparr>code = ''LINE_SPACING_MISMATCH'', severity = WARNING,
      message = MSG_LINE_SPACING_MISMATCH,
      details = Some [(''got'', DFloat got), (''expected'', DFloat (line_spacing rules))]\<rparr>"

definition line_spacing_absolute_issue :: ValidationIssue where
  "line_spacing_absolute_issue =
     \<lparr>code = ''LINE_SPACING_ABSOLUTE'', severity = WARNING,
      message = MSG_LINE_SPACING_ABSOLUTE, details = None\<rparr>"

definition indent_mismatch_issue :: "int \<Rightarrow> int \<Rightarrow> ValidationIssue" where
  "indent_mismatch_issue got expected_twips =
     \<lparr>code = ''INDENT_MISMATCH'', severity = WARNING, message = MSG_INDENT_MISMATCH,
      details = Some [(''got_twips'', DInt got), (''expected_twips'', DInt expected_twips)]\<rparr>"

definition body_font_name_issue :: "ThesisStyleRules \<Rightarrow> ustr \<Rightarrow> ustr \<Rightarrow> ValidationIssue" where
  "body_font_name_issue rules txt name =
     \<lparr>code = ''BODY_FONT_NAME_MISMATCH'', severity = WARNING,
      message = MSG_BODY_FONT_NAME_MISMATCH (font_name rules),
      details = Some [(''paragraph'', DStr (take 80 txt)), (''font'', DStr name)]\<rparr>"

definition body_font_size_issue :: "ThesisStyleRules \<Rightarrow> ustr \<Rightarrow> int \<Rightarrow> ValidationIssue" where
  "body_font_size_issue rules txt sz =
     \<lparr>code = ''BODY_FONT_SIZE_MISMATCH'', severity = WARNING,
      message = MSG_BODY_FONT_SIZE_MISMATCH (font_size_pt rules),
      details = Some [(''paragraph'', DStr (take 80 txt)), (''size_pt'', DFloat (pt sz))]\<rparr>"

text \<open>
  The line spacing test. \<^verbatim>\<open>isinstance(ls, (int, float))\<close> holds for a float and, since
  \<^verbatim>\<open>Length\<close> derives from \<^verbatim>\<open>int\<close>, for a \<^verbatim>\<open>Length\<close> as well, so the \<^verbatim>\<open>elif\<close> on
  \<^verbatim>\<open>Length\<close> is never reached; \<^verbatim>\<open>float(ls)\<close> of a \<^verbatim>\<open>Length\<close> is its integer value.
\<close>

fun isinstance_int_float :: "line_spacing_value \<Rightarrow> bool" where
  "isinstance_int_float (Multiple x) = True"
| "isinstance_int_float (Length n) = True"

fun isinstance_Length :: "line_spacing_value \<Rightarrow> bool" where
  "isinstance_Length (Multiple x) = False"
| "isinstance_Length (Length n) = True"

fun py_float :: "line_spacing_value \<Rightarrow> rat" where
  "py_float (Multiple x) = x"
| "py_float (Length n) = fl (of_int n)"

definition check_line_spacing :: "ThesisStyleRules \<Rightarrow> Paragraph \<Rightarrow> ValidationIssue list" where
  "check_line_spacing rules p =
     (case p_line_spacing p of
        None \<Rightarrow> []
      | Some ls \<Rightarrow>
          if isinstance_int_float ls
          then (if \<bar>fl (py_float ls - line_spacing rules)\<bar> > LINE_SPACING_TOL
                then [line_spacing_mismatch_issue rules (py_float ls)] else [])
          else if isinstance_Length ls then [line_spacing_absolute_issue]
          else [])"

text \<open>
  The first-line indent test. The expected indent is converted from centimetres to twips
  (1440 to the inch); the indent read from the paragraph is compared with it as it is, with
  a tolerance of 80, which the source notes as about 1.4 mm.
\<close>

definition expected_indent_twips :: "ThesisStyleRules \<Rightarrow> int" where
  "expected_indent_twips rules =
     py_round
       (fl (fl (fl (paragraph_indent_cm rules * 10) * MM_TO_INCH) * TWIPS_PER_INCH))"

definition check_indent :: "ThesisStyleRules \<Rightarrow> Paragraph \<Rightarrow> ValidationIssue list" where
  "check_indent rules p =
     (case p_first_line_indent p of
        None \<Rightarrow> []
      | Some indent \<Rightarrow>
          let expected_twips = expected_indent_twips rules
          in if \<bar>indent - expected_twips\<bar> > 80
             then [indent_mismatch_issue indent expected_twips] else [])"

text \<open>
  The loop over the runs of a body paragraph, left by \<^verbatim>\<open>break\<close> at the first finding. A font
  name or size counts only when it is truthy: set, and not the empty string or zero.
\<close>

fun check_body_runs :: "ThesisStyleRules \<Rightarrow> ustr \<Rightarrow> Run list \<Rightarrow> ValidationIssue list" where
  "check_body_runs rules txt [] = []"
| "check_body_runs rules txt (r # rs) =
     (if strip (r_text r) = [] then check_body_runs rules txt rs
      else if (case r_font_name r of None \<Rightarrow> False
               | Some name \<Rightarrow> name \<noteq> [] \<and> name \<noteq> font_name rules)
      then [body_font_name_issue rules txt (the (r_font_name r))]
      else if (case r_font_size r of None \<Rightarrow> False
               | Some sz \<Rightarrow>
                   sz \<noteq> 0 \<and> \<bar>fl (pt sz - font_size_pt rules)\<bar> > FONT_SIZE_TOL)
      then [body_font_size_issue rules txt (the (r_font_size r))]
      else check_body_runs rules txt rs)"

text \<open>The body of the loop over the sampled paragraphs.\<close>

definition check_body_paragraph :: "ThesisStyleRules \<Rightarrow> Paragraph \<Rightarrow> ValidationIssue list" where
  "check_body_paragraph rules p =
     (let txt = strip (p_text p)
      in if txt = [] then []
         else
           (if body_justify rules \<and> p_alignment p \<noteq> None \<and> p_alignment p \<noteq> Some JUSTIFY
            then [body_not_justified_issue txt] else [])
           @ check_line_spacing rules p
           @ check_indent rules p
           @ check_body_runs rules txt (p_runs p))"

text \<open>
  The paragraphs the body check looks at: the non-empty paragraphs after the first three,
  up to the literature heading if there is one, and of those at most thirty.
\<close>

definition body_sample :: "unicode_db \<Rightarrow> Document \<Rightarrow> Paragraph list" where
  "body_sample U doc =
     (let body0 = drop 3 (nonempty_paragraphs doc);
          lit_idx = first_index (is_literature_heading U) body0;
          body = (case lit_idx of None \<Rightarrow> body0 | Some i \<Rightarrow> take i body0)
      in if length body > 30 then take 30 body else body)"

text \<open>\<^verbatim>\<open>_check_body_paragraphs\<close>.\<close>

definition check_body_paragraphs ::
  "unicode_db \<Rightarrow> Document \<Rightarrow> ThesisStyleRules \<Rightarrow> ValidationIssue list" where
  "check_body_paragraphs U doc rules =
     (if length (nonempty_paragraphs doc) < 4 then []
      else concat (map (check_body_paragraph rules) (body_sample U doc)))"

section \<open>Literature block\<close>

definition literature_missing_issue :: ValidationIssue where
  "literature_missing_issue =
     \<lparr>code = ''LITERATURE_MISSING'', severity = ERROR, message = MSG_LITERATURE_MISSING,
      details = None\<rparr>"

definition literature_not_at_end_issue :: "nat \<Rightarrow> nat \<Rightarrow> ValidationIssue" where
  "literature_not_at_end_issue lit_pos n_paragraphs =
     \<lparr>code = ''LITERATURE_NOT_AT_END'', severity = WARNING,
      message = MSG_LITERATURE_NOT_AT_END,
      details = Some [(''position'', DInt (int lit_pos)),
                      (''total_paragraphs'', DInt (int n_paragraphs))]\<rparr>"

definition literature_items_issue :: ValidationIssue where
  "literature_items_issue =
     \<lparr>code = ''LITERATURE_ITEMS_FORMAT'', severity = WARNING,
      message = MSG_LITERATURE_ITEMS_FORMAT, details = None\<rparr>"

text \<open>The pattern \<^verbatim>\<open>^\s*\d+\.\<close> of a numbered item.\<close>

definition item_pattern :: "unicode_db \<Rightarrow> regex" where
  "item_pattern U = Seq (Star (Sym isspace)) (Seq (Plus (Sym (isdecimal U))) (Chr 46))"

text \<open>
  \<^verbatim>\<open>_check_literature\<close>. \<^verbatim>\<open>int(len(paragraphs) * 0.6)\<close> converts the length to a float,
  multiplies, and truncates the product, which is not negative. The slice \<^verbatim>\<open>paragraphs[lit_pos + 1 : lit_pos + 6]\<close> is the up to five paragraphs
  after the heading.
\<close>

definition check_literature ::
  "unicode_db \<Rightarrow> Document \<Rightarrow> ThesisStyleRules \<Rightarrow> ValidationIssue list" where
  "check_literature U doc rules =
     (let ps = nonempty_paragraphs doc
      in if ps = [] then []
         else
           case first_index (is_literature_heading U) ps of
             None \<Rightarrow> if require_literature_block rules then [literature_missing_issue] else []
           | Some lit_pos \<Rightarrow>
               (if int lit_pos < \<lfloor>fl (fl (of_nat (length ps)) * fl (6 / 10))\<rfloor>
                then [literature_not_at_end_issue lit_pos (length ps)] else [])
               @ (let after = take 5 (drop (lit_pos + 1) ps);
                      has_item = list_ex (\<lambda>p. re_match (item_pattern U) (strip (p_text p))) after
                  in if \<not> has_item then [literature_items_issue] else []))"

section \<open>Captions\<close>

text \<open>
  The caption markers are the Ukrainian abbreviation \<^verbatim>\<open>U+0420 U+0438 U+0441\<close> with a full
  stop (figure) and the word \<^verbatim>\<open>U+0422 U+0430 U+0431 U+043B U+0438 U+0446 U+044F\<close> (table),
  each followed by optional whitespace and at least one digit.
\<close>

definition figure_pattern :: "unicode_db \<Rightarrow> regex" where
  "figure_pattern U =
     Seq (Lit [1056, 1080, 1089, 46]) (Seq (Star (Sym isspace)) (Plus (Sym (isdecimal U))))"

definition table_pattern :: "unicode_db \<Rightarrow> regex" where
  "table_pattern U =
     Seq (Lit [1058, 1072, 1073, 1083, 1080, 1094, 1103])
       (Seq (Star (Sym isspace)) (Plus (Sym (isdecimal U))))"

definition is_caption :: "unicode_db \<Rightarrow> ustr \<Rightarrow> bool" where
  "is_caption U txt = (re_match (figure_pattern U) txt \<or> re_match (table_pattern U) txt)"

definition caption_size_issue :: "ustr \<Rightarrow> int \<Rightarrow> ValidationIssue" where
  "caption_size_issue txt sz =
     \<lparr>code = ''CAPTION_SIZE_MISMATCH'', severity = WARNING,
      message = MSG_CAPTION_SIZE_MISMATCH,
      details = Some [(''caption'', DStr (take 80 txt)), (''size_pt'', DFloat (pt sz))]\<rparr>"

text \<open>The loop over the runs of a caption, left by \<^verbatim>\<open>break\<close> at the first finding.\<close>

fun check_caption_runs :: "ustr \<Rightarrow> Run list \<Rightarrow> ValidationIssue list" where
  "check_caption_runs txt [] = []"
| "check_caption_runs txt (r # rs) =
     (if strip (r_text r) = [] then check_caption_runs txt rs
      else if (case r_font_size r of None \<Rightarrow> False
               | Some sz \<Rightarrow> sz \<noteq> 0 \<and> \<bar>fl (pt sz - CAPTION_SIZE_PT)\<bar> > 1 / 2)
      then [caption_size_issue txt (the (r_font_size r))]
      else check_caption_runs txt rs)"

text \<open>The body of the loop over all paragraphs.\<close>

definition check_caption :: "unicode_db \<Rightarrow> Paragraph \<Rightarrow> ValidationIssue list" where
  "check_caption U p =
     (let txt = strip (p_text p)
      in if txt = [] then []
         else if is_caption U txt then check_caption_runs txt (p_runs p)
         else [])"

text \<open>\<^verbatim>\<open>_check_captions\<close>.\<close>

definition check_captions :: "unicode_db \<Rightarrow> Document \<Rightarrow> ValidationIssue list" where
  "check_captions U doc = concat (map (check_caption U) (paragraphs doc))"

section \<open>Length heuristic\<close>

definition length_too_short_issue :: "nat \<Rightarrow> ValidationIssue" where
  "length_too_short_issue chars =
     \<lparr>code = ''LENGTH_TOO_SHORT'', severity = WARNING, message = MSG_LENGTH_TOO_SHORT,
      details = Some [(''chars'', DInt (int chars)),
                      (''min_expected'', DInt (int MIN_TEXT_CHARS))]\<rparr>"

definition length_too_long_issue :: "nat \<Rightarrow> ValidationIssue" where
  "length_too_long_issue chars =
     \<lparr>code = ''LENGTH_TOO_LONG'', severity = WARNING, message = MSG_LENGTH_TOO_LONG,
      details = Some [(''chars'', DInt (int chars)),
                      (''max_expected'', DInt (int MAX_TEXT_CHARS))]\<rparr>"

text \<open>
  The character count: the paragraph texts joined by newlines, stripped, every whitespace
  run replaced by one space.
\<close>

definition text_chars :: "Document \<Rightarrow> nat" where
  "text_chars doc =
     (let text = strip (join [10] (map p_text (paragraphs doc)))
      in length (sub_ws False text))"

text \<open>\<^verbatim>\<open>_check_length_heuristic\<close>.\<close>

definition check_length_heuristic :: "Document \<Rightarrow> ValidationIssue list" where
  "check_length_heuristic doc =
     (let chars = text_chars doc
      in (if chars < MIN_TEXT_CHARS then [length_too_short_issue chars] else [])
         @ (if chars > MAX_TEXT_CHARS then [length_too_long_issue chars] else []))"

section \<open>The validation engine\<close>

text \<open>
  \<^verbatim>\<open>validate_thesis_docx\<close>. Loading the file is python-docx's work and depends on the file
  system; it is the parameter \<open>load\<close>, which gives the parsed document or fails. A missing
  rule set is replaced by the defaults (\<^verbatim>\<open>rules or ThesisStyleRules()\<close>). The six checks run in order on the one parsed
  document, their findings are concatenated, and \<open>ok\<close> is computed from the result.
\<close>

definition rules_or_default :: "ThesisStyleRules option \<Rightarrow> ThesisStyleRules" where
  "rules_or_default rules_arg = (case rules_arg of None \<Rightarrow> default_rules | Some r \<Rightarrow> r)"

definition validate_thesis_docx ::
  "unicode_db \<Rightarrow> ('path \<Rightarrow> error + Document) \<Rightarrow> 'path \<Rightarrow> ThesisStyleRules option
     \<Rightarrow> error + ValidationReport" where
  "validate_thesis_docx U load path rules_arg =
     (let rules = rules_or_default rules_arg
      in case load path of
           Inl e \<Rightarrow> Inl e
         | Inr doc \<Rightarrow>
             (case check_page_setup doc rules of
                Inl e \<Rightarrow> Inl e
              | Inr page_issues \<Rightarrow>
                  let found = page_issues
                        @ check_header_structure U doc rules
                        @ check_body_paragraphs U doc rules
                        @ check_literature U doc rules
                        @ check_captions U doc
                        @ check_length_heuristic doc;
                      verdict = \<not> list_ex (\<lambda>i. severity i = ERROR) found
                  in Inr \<lparr>ok = verdict, issues = found\<rparr>))"

section \<open>Reading a list of findings\<close>

text \<open>
  The properties below speak of the findings with a given code, of the value a finding's
  details give for a key, and of the findings that belong to a section.
\<close>

definition findings :: "string \<Rightarrow> ValidationIssue list \<Rightarrow> ValidationIssue list" where
  "findings c found = filter (\<lambda>i. code i = c) found"

definition detail_of :: "string \<Rightarrow> ValidationIssue \<Rightarrow> detail option" where
  "detail_of k i = (case details i of None \<Rightarrow> None | Some kv \<Rightarrow> map_of kv k)"

definition in_section :: "nat \<Rightarrow> ValidationIssue \<Rightarrow> bool" where
  "in_section idx i = (detail_of ''section'' i = Some (DInt (int idx)))"

text \<open>The codes only the header structure check produces.\<close>

definition header_codes :: "string list" where
  "header_codes =
     [''HEADER_TOO_SHORT'', ''TITLE_NOT_CENTER'', ''AUTHORS_NOT_CENTER'', ''ORG_NOT_CENTER'',
      ''TITLE_NOT_UPPERCASE'', ''FONT_NAME_MISMATCH'', ''FONT_SIZE_MISMATCH'',
      ''HEADER_NOT_BOLD'', ''AUTHORS_NOT_ITALIC'', ''FONT_UNKNOWN'',
      ''AUTHORS_LIST_FORMAT'', ''AUTHORS_INITIALS_PATTERN'']"

text \<open>The codes of the other five checks.\<close>

definition page_setup_codes :: "string list" where
  "page_setup_codes = [''PAGE_NOT_A4'', ''MARGIN_NOT_20MM'', ''HEADER_FOOTER_PRESENT'']"

definition body_codes :: "string list" where
  "body_codes =
     [''BODY_NOT_JUSTIFIED'', ''LINE_SPACING_MISMATCH'', ''LINE_SPACING_ABSOLUTE'',
      ''INDENT_MISMATCH'', ''BODY_FONT_NAME_MISMATCH'', ''BODY_FONT_SIZE_MISMATCH'']"

definition literature_codes :: "string list" where
  "literature_codes =
     [''LITERATURE_MISSING'', ''LITERATURE_NOT_AT_END'', ''LITERATURE_ITEMS_FORMAT'']"

definition caption_codes :: "string list" where
  "caption_codes = [''CAPTION_SIZE_MISMATCH'']"

definition length_codes :: "string list" where
  "length_codes = [''LENGTH_TOO_SHORT'', ''LENGTH_TOO_LONG'']"

text \<open>A section that has its two page dimensions and its four margins.\<close>

definition has_geometry :: "Section \<Rightarrow> bool" where
  "has_geometry s =
     (page_width s \<noteq> None \<and> page_height s \<noteq> None \<and> top_margin s \<noteq> None
      \<and> bottom_margin s \<noteq> None \<and> left_margin s \<noteq> None \<and> right_margin s \<noteq> None)"

text \<open>
  Lengths in the units of python-docx: a count of twips as a count of English Metric
  Units, and a count of English Metric Units as millimetres.
\<close>

definition emu_of_twips :: "int \<Rightarrow> int" where
  "emu_of_twips t = 635 * t"

definition mm_of_emu :: "int \<Rightarrow> rat" where
  "mm_of_emu e = of_int e / 36000"

text \<open>The runs of a paragraph that the font checks look at: those with non-blank text.\<close>

definition nonblank_runs :: "Paragraph \<Rightarrow> Run list" where
  "nonblank_runs p = filter (\<lambda>r. strip (r_text r) \<noteq> []) (p_runs p)"

text \<open>
  What the run-level font check can see in one run: a font name that is set and differs
  from the required one, a size that is set and differs from the required one by more
  than the tolerance, and a name or size that is not set.
\<close>

definition name_mismatch :: "ThesisStyleRules \<Rightarrow> Run \<Rightarrow> bool" where
  "name_mismatch rules r =
     (case r_font_name r of None \<Rightarrow> False | Some name \<Rightarrow> name \<noteq> font_name rules)"

definition size_mismatch :: "ThesisStyleRules \<Rightarrow> Run \<Rightarrow> bool" where
  "size_mismatch rules r =
     (case r_font_size r of None \<Rightarrow> False
      | Some sz \<Rightarrow> \<bar>fl (pt sz - font_size_pt rules)\<bar> > FONT_SIZE_TOL)"

definition font_unset :: "Run \<Rightarrow> bool" where
  "font_unset r = (r_font_name r = None \<or> r_font_size r = None)"

text \<open>
  A run whose size is set, not zero, and more than half a point from the caption size.
\<close>

definition caption_size_off :: "Run \<Rightarrow> bool" where
  "caption_size_off r =
     (case r_font_size r of None \<Rightarrow> False
      | Some sz \<Rightarrow> sz \<noteq> 0 \<and> \<bar>fl (pt sz - CAPTION_SIZE_PT)\<bar> > 1 / 2)"

text \<open>
  The caption markers spelled out, and what it is for a text to begin with a marker,
  optional whitespace and a digit.
\<close>

definition FIGURE_MARKER :: ustr where
  "FIGURE_MARKER = [1056, 1080, 1089, 46]"

definition TABLE_MARKER :: ustr where
  "TABLE_MARKER = [1058, 1072, 1073, 1083, 1080, 1094, 1103]"

definition starts_caption :: "unicode_db \<Rightarrow> ustr \<Rightarrow> bool" where
  "starts_caption U t =
     (\<exists>ws d rest. (t = FIGURE_MARKER @ ws @ d # rest \<or> t = TABLE_MARKER @ ws @ d # rest)
        \<and> list_all isspace ws \<and> isdecimal U d)"

text \<open>
  The words of a text, as \<^verbatim>\<open>text.split()\<close> gives them: its maximal blocks of code points
  that are not whitespace. The first argument is the word being read.
\<close>

fun split_ws :: "ustr \<Rightarrow> ustr \<Rightarrow> ustr list" where
  "split_ws w [] = (if w = [] then [] else [w])"
| "split_ws w (c # cs) =
     (if isspace c then (if w = [] then split_ws [] cs else w # split_ws [] cs)
      else split_ws (w @ [c]) cs)"

section \<open>Example documents\<close>

text \<open>
  A section on which the page setup check is silent: its page dimensions and margins are,
  as counts, the numbers the check's constants expect (11906 by 16838, margins of 1134),
  and its header and footer hold one empty paragraph. Since python-docx counts in English
  Metric Units, these counts are a page of a third of a millimetre; what a real A4 page
  gives is \<open>real_a4_section\<close> below.
\<close>

definition quiet_section :: Section where
  "quiet_section =
     \<lparr>page_width = Some 11906, page_height = Some 16838, top_margin = Some 1134,
      bottom_margin = Some 1134, left_margin = Some 1134, right_margin = Some 1134,
      header = Some [[]], footer = Some [[]]\<rparr>"

text \<open>
  An A4 section with margins of 20 mm as python-docx reads it from a file that stores
  11906 by 16838 twips and margins of 1134 twips: 635 units to the twip.
\<close>

definition real_a4_section :: Section where
  "real_a4_section =
     \<lparr>page_width = Some 7560310, page_height = Some 10692130, top_margin = Some 720090,
      bottom_margin = Some 720090, left_margin = Some 720090, right_margin = Some 720090,
      header = Some [[]], footer = Some [[]]\<rparr>"

text \<open>A run in Times New Roman, 14 pt (177800 units), bold and italic.\<close>

definition header_run :: "ustr \<Rightarrow> Run" where
  "header_run t =
     \<lparr>r_text = t, r_font_name = Some REQUIRED_FONT, r_font_size = Some 177800,
      r_bold = Some True, r_italic = Some True\<rparr>"

definition header_line :: "ustr \<Rightarrow> Paragraph" where
  "header_line t =
     \<lparr>p_text = t, p_alignment = Some CENTER, p_line_spacing = None,
      p_first_line_indent = None, p_runs = [header_run t]\<rparr>"

text \<open>A justified body paragraph of one run with the given first-line indent and font size.\<close>

definition body_line :: "ustr \<Rightarrow> int option \<Rightarrow> int option \<Rightarrow> Paragraph" where
  "body_line t indent sz =
     \<lparr>p_text = t, p_alignment = Some JUSTIFY, p_line_spacing = None,
      p_first_line_indent = indent,
      p_runs = [\<lparr>r_text = t, r_font_name = None, r_font_size = sz, r_bold = None,
                 r_italic = None\<rparr>]\<rparr>"

definition empty_paragraph :: Paragraph where
  "empty_paragraph =
     \<lparr>p_text = [], p_alignment = None, p_line_spacing = None, p_first_line_indent = None,
      p_runs = []\<rparr>"

definition title_line :: Paragraph where
  "title_line = header_line (u ''ON THESES'')"

definition authors_line :: Paragraph where
  "authors_line = header_line (u ''Ivanenko I. I., Petrenko P. P.'')"

definition org_line :: Paragraph where
  "org_line = header_line (u ''Kyiv Polytechnic'')"

text \<open>A document of one section and one empty paragraph.\<close>

definition blank_doc :: Document where
  "blank_doc = \<lparr>sections = [quiet_section], paragraphs = [empty_paragraph]\<rparr>"

text \<open>A document that stops after the title and the authors.\<close>

definition two_line_doc :: Document where
  "two_line_doc =
     \<lparr>sections = [quiet_section], paragraphs = [title_line, empty_paragraph, authors_line]\<rparr>"

text \<open>
  Two sections: the first silent; the second with a left margin count of 1200 and text
  both in its header and in its footer.
\<close>

definition margin_doc :: Document where
  "margin_doc =
     \<lparr>sections =
        [quiet_section,
         quiet_section\<lparr>left_margin := Some 1200, header := Some [u ''Draft''],
                       footer := Some [[], u ''page 1'']\<rparr>],
      paragraphs = [empty_paragraph]\<rparr>"

text \<open>A document whose one section is the real A4 section.\<close>

definition real_a4_doc :: Document where
  "real_a4_doc = \<lparr>sections = [real_a4_section], paragraphs = [empty_paragraph]\<rparr>"

text \<open>
  A header and one body paragraph with a first-line indent of 709 twips, the nearest
  whole number of twips to 1.25 cm, which python-docx gives as 450215 units.
\<close>

definition indent_doc :: Document where
  "indent_doc =
     \<lparr>sections = [quiet_section],
      paragraphs =
        [title_line, authors_line, org_line,
         body_line (u ''First paragraph.'') (Some 450215) None]\<rparr>"

text \<open>
  Captions in 10 pt (127000 units): one that begins \<^verbatim>\<open>Fig. 1\<close> in Latin letters, one that
  begins with the Ukrainian figure marker, one that begins with the Ukrainian table
  marker; and the figure caption in 12 pt (152400 units).
\<close>

definition fig_caption :: Paragraph where
  "fig_caption = body_line (u ''Fig. 1 Scheme'') None (Some 127000)"

definition ris_text :: ustr where
  "ris_text = [1056, 1080, 1089, 46] @ u '' 1 Scheme''"

definition tab_text :: ustr where
  "tab_text = [1058, 1072, 1073, 1083, 1080, 1094, 1103] @ u '' 2 Data''"

definition ris_caption :: Paragraph where
  "ris_caption = body_line ris_text None (Some 127000)"

definition tab_caption :: Paragraph where
  "tab_caption = body_line tab_text None (Some 127000)"

definition ris_caption_12 :: Paragraph where
  "ris_caption_12 = body_line ris_text None (Some 152400)"

definition fig_doc :: Document where
  "fig_doc = \<lparr>sections = [quiet_section], paragraphs = [fig_caption]\<rparr>"

text \<open>A document with the four captions and an empty paragraph.\<close>

definition caption_doc :: Document where
  "caption_doc =
     \<lparr>sections = [quiet_section],
      paragraphs = [ris_caption, empty_paragraph, tab_caption, ris_caption_12, fig_caption]\<rparr>"

text \<open>
  A header line whose one run is in the required font and size but sets neither bold nor
  italic.
\<close>

definition unset_line :: Paragraph where
  "unset_line =
     \<lparr>p_text = u ''ON THESES'', p_alignment = Some CENTER, p_line_spacing = None,
      p_first_line_indent = None,
      p_runs = [\<lparr>r_text = u ''ON THESES'', r_font_name = Some REQUIRED_FONT,
                 r_font_size = Some 177800, r_bold = None, r_italic = None\<rparr>]\<rparr>"

text \<open>A header line whose one run is bold and sets neither font name nor size.\<close>

definition styled_line :: Paragraph where
  "styled_line =
     \<lparr>p_text = u ''ON THESES'', p_alignment = Some CENTER, p_line_spacing = None,
      p_first_line_indent = None,
      p_runs = [\<lparr>r_text = u ''ON THESES'', r_font_name = None, r_font_size = None,
                 r_bold = Some True, r_italic = None\<rparr>]\<rparr>"

text \<open>
  A document of two paragraphs: \<open>n\<close> letters between a space and a space and a tab, and
  \<open>m\<close> letters followed by a line break and a space.
\<close>

definition two_blocks_doc :: "nat \<Rightarrow> nat \<Rightarrow> Document" where
  "two_blocks_doc n m =
     \<lparr>sections = [quiet_section],
      paragraphs =
        [body_line ([32] @ replicate n 97 @ [32, 9]) None None,
         body_line (replicate m 98 @ [10, 32]) None None]\<rparr>"

text \<open>A document of \<open>k\<close> paragraphs, each one letter and a space.\<close>

definition words_doc :: "nat \<Rightarrow> Document" where
  "words_doc k =
     \<lparr>sections = [quiet_section], paragraphs = replicate k (body_line [97, 32] None None)\<rparr>"

section \<open>Rounding to a double\<close>

lemma py_round_unique:
  assumes "of_int n - 1 / 2 < x" "x < of_int n + 1 / 2"
  shows "py_round x = n"
proof -
  consider "\<lfloor>x\<rfloor> = n" | "\<lfloor>x\<rfloor> = n - 1"
    using assms by linarith
  then show ?thesis
  proof cases
    case 1
    then have "x - of_int \<lfloor>x\<rfloor> < 1 / 2" using assms by simp
    with 1 show ?thesis by (simp add: py_round_def Let_def)
  next
    case 2
    then have "x - of_int \<lfloor>x\<rfloor> > 1 / 2" using assms by simp
    with 2 show ?thesis by (simp add: py_round_def Let_def)
  qed
qed

lemma py_round_of_int: "py_round (of_int n) = n"
  by (rule py_round_unique) simp_all

lemma py_round_half_even:
  assumes "even n"
  shows "py_round (of_int n + 1 / 2) = n" and "py_round (of_int n - 1 / 2) = n"
proof -
  have "\<lfloor>(of_int n :: rat) + 1 / 2\<rfloor> = n" by (rule floor_unique) simp_all
  with assms show "py_round (of_int n + 1 / 2) = n"
    by (simp add: py_round_def Let_def)
  have f: "\<lfloor>(of_int n :: rat) - 1 / 2\<rfloor> = n - 1" by (rule floor_unique) simp_all
  have "(of_int n :: rat) - 1 / 2 - of_int (n - 1) = 1 / 2" by simp
  with assms f show "py_round (of_int n - 1 / 2) = n"
    by (simp add: py_round_def Let_def)
qed

lemma ilog2_bounds:
  assumes "0 < y"
  shows "2 powi ilog2 y \<le> y" and "y < 2 powi (ilog2 y + 1)"
proof -
  have "2 powi ilog2 y \<le> y \<and> y < 2 powi (ilog2 y + 1)"
  proof (cases "1 \<le> y")
    case True
    define n where "n = \<lfloor>y\<rfloor>"
    from True have n: "0 < n" by (simp add: n_def)
    define k where "k = nat (bitlen n - 1)"
    from bitlen_bounds[OF n] have b: "2 ^ k \<le> n" "n < 2 ^ nat (bitlen n)"
      by (simp_all add: k_def)
    from n have "1 \<le> bitlen n" by (auto simp: bitlen_alt_def)
    then have k: "int k = bitlen n - 1" "nat (bitlen n) = Suc k" by (simp_all add: k_def)
    from True have il: "ilog2 y = int k" by (simp add: ilog2_def n_def k)
    have "(2::rat) ^ k = of_int (2 ^ k)" by simp
    also have "\<dots> \<le> of_int n" using b(1) by (simp only: of_int_le_iff)
    also have "\<dots> \<le> y" by (simp add: n_def)
    finally have lo: "(2::rat) ^ k \<le> y" .
    from b(2) have "n + 1 \<le> 2 ^ Suc k" by (simp add: k)
    then have "(of_int (n + 1) :: rat) \<le> of_int (2 ^ Suc k)" by (simp only: of_int_le_iff)
    moreover have "y < of_int (n + 1)" unfolding n_def by linarith
    ultimately have hi: "y < 2 ^ Suc k" by simp
    have "int k + 1 = int (Suc k)" by simp
    with lo hi il show ?thesis by (simp only: power_int_of_nat)
  next
    case False
    with assms have z: "1 < 1 / y" by simp
    define c where "c = \<lceil>1 / y\<rceil>"
    from z have c: "2 \<le> c" unfolding c_def by linarith
    define j where "j = nat (bitlen (c - 1))"
    from c have pos: "0 < c - 1" by simp
    then have "1 \<le> bitlen (c - 1)" by (auto simp: bitlen_alt_def)
    then have j: "bitlen (c - 1) = int j" "0 < j" by (simp_all add: j_def)
    have e: "nat (bitlen (c - 1) - 1) = j - 1" "nat (bitlen (c - 1)) = j"
      using j by simp_all
    from bitlen_bounds[OF pos] have b: "2 ^ (j - 1) \<le> c - 1" "c - 1 < 2 ^ j"
      unfolding e by blast+
    from False have il: "ilog2 y = - int j"
      unfolding ilog2_def c_def[symmetric] by (simp add: j)
    from b(2) have "c \<le> 2 ^ j" by simp
    then have "(of_int c :: rat) \<le> 2 ^ j" by simp
    moreover have "1 / y \<le> of_int c" by (simp add: c_def)
    ultimately have "1 / y \<le> 2 ^ j" by linarith
    with assms have lo: "1 / 2 ^ j \<le> y"
      by (simp add: field_simps)
    have "(2::rat) ^ (j - 1) \<le> of_int (c - 1)"
      using b(1) by (simp only: numeral_power_le_of_int_cancel_iff)
    then have "(2::rat) ^ (j - 1) \<le> of_int c - 1" by simp
    moreover have "of_int c - 1 < 1 / y" unfolding c_def by linarith
    ultimately have "2 ^ (j - 1) < 1 / y" by linarith
    with assms have hi: "y < 1 / 2 ^ (j - 1)"
      by (simp add: field_simps)
    have "(2::rat) powi (- int j) = 1 / 2 ^ j"
      by (simp add: power_int_minus field_simps)
    moreover have "(2::rat) powi (- int j + 1) = 1 / 2 ^ (j - 1)"
    proof -
      from j(2) have eq: "- int j + 1 = - int (j - 1)" by simp
      have "(2::rat) powi (- int (j - 1)) = 1 / 2 ^ (j - 1)"
        by (simp add: power_int_minus field_simps)
      then show ?thesis by (simp only: eq)
    qed
    ultimately show ?thesis using lo hi il by simp
  qed
  then show "2 powi ilog2 y \<le> y" and "y < 2 powi (ilog2 y + 1)" by simp_all
qed

lemma powi_mono: "a \<le> b \<Longrightarrow> (2::rat) powi a \<le> 2 powi b"
  by (rule power_int_increasing) simp_all

lemma ilog2_unique:
  assumes "2 powi e \<le> y" "y < 2 powi (e + 1)"
  shows "ilog2 y = e"
proof -
  have "(0::rat) < 2 powi e" by simp
  with assms(1) have pos: "0 < y" by linarith
  note b = ilog2_bounds[OF pos]
  have "\<not> ilog2 y < e"
  proof
    assume "ilog2 y < e"
    then have "(2::rat) powi (ilog2 y + 1) \<le> 2 powi e" by (intro powi_mono) simp
    with b(2) assms(1) show False by linarith
  qed
  moreover have "\<not> e < ilog2 y"
  proof
    assume "e < ilog2 y"
    then have "(2::rat) powi (e + 1) \<le> 2 powi ilog2 y" by (intro powi_mono) simp
    with b(1) assms(2) show False by linarith
  qed
  ultimately show ?thesis by simp
qed

text \<open>
  Rounding a value in the normal range, where the unit in the last place is \<open>ulp\<close>: the
  significand is the quotient rounded to an integer.
\<close>

lemma fl_exponent:
  assumes "ulp = 2 powi k" "- 1074 \<le> k"
    and "2 ^ 52 * ulp \<le> \<bar>x\<bar>" "\<bar>x\<bar> < 2 ^ 53 * ulp"
  shows "fl x = of_int (py_round (x / ulp)) * ulp"
proof -
  have up: "0 < ulp" by (simp add: assms(1))
  then have "(0::rat) < 2 ^ 52 * ulp" by simp
  with assms(3) have "0 < \<bar>x\<bar>" by linarith
  then have nz: "x \<noteq> 0" by simp
  have "(2::rat) powi (k + 52) = 2 ^ 52 * ulp" "(2::rat) powi (k + 52 + 1) = 2 ^ 53 * ulp"
    by (simp_all add: assms(1) power_int_add)
  with assms(3,4) have "ilog2 \<bar>x\<bar> = k + 52"
    by (intro ilog2_unique) simp_all
  with assms(2) have "max (ilog2 \<bar>x\<bar> - 52) (- 1074) = k" by simp
  then show ?thesis
    using nz by (simp add: fl_def Let_def assms(1))
qed

lemma fl_eq:
  assumes "ulp = 2 powi k" "- 1074 \<le> k"
    and "2 ^ 52 * ulp \<le> \<bar>x\<bar>" "\<bar>x\<bar> < 2 ^ 53 * ulp"
    and "\<bar>x / ulp - of_int m\<bar> < 1 / 2"
  shows "fl x = of_int m * ulp"
proof -
  from assms(5) have "py_round (x / ulp) = m"
    by (intro py_round_unique) linarith+
  with fl_exponent[OF assms(1-4)] show ?thesis by simp
qed

text \<open>A value with a 53-bit significand is its own rounding.\<close>

lemma fl_representable:
  assumes "x = of_int m * 2 powi k" "\<bar>m\<bar> < 2 ^ 53" "- 1074 \<le> k"
  shows "fl x = x"
proof (cases "x = 0")
  case True
  then show ?thesis by (simp add: fl_def)
next
  case False
  define q where "q = max (ilog2 \<bar>x\<bar> - 52) (- 1074)"
  have ax: "\<bar>x\<bar> = of_int \<bar>m\<bar> * 2 powi k"
    by (simp add: assms(1) abs_mult)
  from False have pos: "0 < \<bar>x\<bar>" by simp
  have "of_int \<bar>m\<bar> < (2::rat) ^ 53"
    using assms(2) by (metis of_int_less_iff of_int_numeral of_int_power)
  then have "\<bar>x\<bar> < 2 ^ 53 * 2 powi k"
    unfolding ax by (simp add: mult_strict_right_mono)
  also have "\<dots> = 2 powi (k + 53)" by (simp add: power_int_add)
  finally have lt: "\<bar>x\<bar> < 2 powi (k + 53)" .
  have "ilog2 \<bar>x\<bar> < k + 53"
  proof (rule ccontr)
    assume "\<not> ilog2 \<bar>x\<bar> < k + 53"
    then have "(2::rat) powi (k + 53) \<le> 2 powi ilog2 \<bar>x\<bar>" by (intro powi_mono) simp
    with ilog2_bounds(1)[OF pos] lt show False by linarith
  qed
  with assms(3) have qk: "q \<le> k" by (simp add: q_def)
  then obtain d where d: "k = q + int d" by (metis zle_iff_zadd)
  have "x / 2 powi q = of_int m * 2 powi (k - q)"
    by (simp add: assms(1) power_int_diff)
  also have "\<dots> = of_int (m * 2 ^ d)"
    by (simp add: d power_int_of_nat)
  finally have "py_round (x / 2 powi q) = m * 2 ^ d"
    by (simp only: py_round_of_int)
  then have "(of_int (py_round (x / 2 powi q)) :: rat) * 2 powi q
      = of_int m * (2 ^ d * 2 powi q)"
    by simp
  also have "(2::rat) ^ d * 2 powi q = 2 powi k"
    by (simp add: d power_int_add)
  finally have "(of_int (py_round (x / 2 powi q)) :: rat) * 2 powi q = x"
    by (simp only: assms(1))
  moreover have "fl x = of_int (py_round (x / 2 powi q)) * 2 powi q"
    using False by (simp add: fl_def Let_def q_def)
  ultimately show ?thesis by simp
qed

lemma fl_of_int: "\<bar>n\<bar> < 2 ^ 53 \<Longrightarrow> fl (of_int n) = of_int n"
  by (rule fl_representable[where m = n and k = 0]) simp_all

lemma fl_numeral: "(numeral n :: int) < 2 ^ 53 \<Longrightarrow> fl (numeral n) = numeral n"
  using fl_of_int[of "numeral n"] by simp

lemma fl_neg_numeral: "(numeral n :: int) < 2 ^ 53 \<Longrightarrow> fl (- numeral n) = - numeral n"
  using fl_of_int[of "- numeral n"] by simp

lemma fl_0: "fl 0 = 0"
  by (simp add: fl_def)

lemma fl_1: "fl 1 = 1"
  using fl_of_int[of 1] by simp

subsection \<open>The constants as doubles\<close>

lemma fl_254_10: "fl (254 / 10) = 3574732204225331 / 140737488355328"
proof -
  have "fl (127 / 5) = of_int (7149464408450662) * (1 / 2 ^ 48)"
    by (rule fl_eq[where k = "-48"]) (simp_all add: power_int_minus)
  then show ?thesis by simp
qed

lemma fl_inv_254: "fl (1 / (3574732204225331 / 140737488355328)) = 2836913151099525 / 72057594037927936"
proof -
  have "fl (140737488355328 / 3574732204225331) = of_int (5673826302199050) * (1 / 2 ^ 57)"
    by (rule fl_eq[where k = "-57"]) (simp_all add: power_int_minus)
  then show ?thesis by simp
qed

lemma fl_20_mm: "fl (20 * (2836913151099525 / 72057594037927936)) = 1773070719437203 / 2251799813685248"
proof -
  have "py_round (of_int (7092282877748812) + 1 / 2) = 7092282877748812"
    by (rule py_round_half_even(1)) simp
  then have "py_round ((14184565755497625 / 18014398509481984) / (1 / 2 ^ 53)) = 7092282877748812"
    by simp
  moreover have "fl (14184565755497625 / 18014398509481984) = of_int (py_round ((14184565755497625 / 18014398509481984) / (1 / 2 ^ 53))) * (1 / 2 ^ 53)"
    by (rule fl_exponent[where k = "-53"]) (simp_all add: power_int_minus)
  ultimately have "fl (14184565755497625 / 18014398509481984) = of_int (7092282877748812) * (1 / 2 ^ 53)"
    by (simp only:)
  then show ?thesis by simp
qed

lemma fl_20_mm_twips: "fl (1773070719437203 / 2251799813685248 * 1440) = 4986761398417133 / 4398046511104"
proof -
  have "fl (79788182374674135 / 70368744177664) = of_int (4986761398417133) * (1 / 2 ^ 42)"
    by (rule fl_eq[where k = "-42"]) (simp_all add: power_int_minus)
  then show ?thesis by simp
qed

lemma fl_125_mm: "fl (25 / 2 * (2836913151099525 / 72057594037927936)) = 277042299912063 / 562949953421312"
proof -
  have "fl (70922828777488125 / 144115188075855872) = of_int (8865353597186016) * (1 / 2 ^ 54)"
    by (rule fl_eq[where k = "-54"]) (simp_all add: power_int_minus)
  then show ?thesis by simp
qed

lemma fl_125_mm_twips: "fl (277042299912063 / 562949953421312 * 1440) = 3116725874010709 / 4398046511104"
proof -
  have "py_round (of_int (6233451748021418) - 1 / 2) = 6233451748021418"
    by (rule py_round_half_even(2)) simp
  then have "py_round ((12466903496042835 / 17592186044416) / (1 / 2 ^ 43)) = 6233451748021418"
    by simp
  moreover have "fl (12466903496042835 / 17592186044416) = of_int (py_round ((12466903496042835 / 17592186044416) / (1 / 2 ^ 43))) * (1 / 2 ^ 43)"
    by (rule fl_exponent[where k = "-43"]) (simp_all add: power_int_minus)
  ultimately have "fl (12466903496042835 / 17592186044416) = of_int (6233451748021418) * (1 / 2 ^ 43)"
    by (simp only:)
  then show ?thesis by simp
qed

lemma fl_115_100: "fl (115 / 100) = 2589569785738035 / 2251799813685248"
proof -
  have "fl (23 / 20) = of_int (5179139571476070) * (1 / 2 ^ 52)"
    by (rule fl_eq[where k = "-52"]) (simp_all add: power_int_minus)
  then show ?thesis by simp
qed

lemma fl_6_100: "fl (6 / 100) = 1080863910568919 / 18014398509481984"
proof -
  have "fl (3 / 50) = of_int (8646911284551352) * (1 / 2 ^ 57)"
    by (rule fl_eq[where k = "-57"]) (simp_all add: power_int_minus)
  then show ?thesis by simp
qed

lemma fl_106_100: "fl (106 / 100) = 2386907802506363 / 2251799813685248"
proof -
  have "fl (53 / 50) = of_int (4773815605012726) * (1 / 2 ^ 52)"
    by (rule fl_eq[where k = "-52"]) (simp_all add: power_int_minus)
  then show ?thesis by simp
qed

lemma fl_indent_cm: "fl (2921 / 16000) = 6577507255774609 / 36028797018963968"
proof -
  have "fl (2921 / 16000) = of_int (6577507255774609) * (1 / 2 ^ 55)"
    by (rule fl_eq[where k = "-55"]) (simp_all add: power_int_minus)
  then show ?thesis by simp
qed

lemma fl_indent_cm_10: "fl (6577507255774609 / 36028797018963968 * 10) = 8221884069718261 / 4503599627370496"
proof -
  have "fl (32887536278873045 / 18014398509481984) = of_int (8221884069718261) * (1 / 2 ^ 52)"
    by (rule fl_eq[where k = "-52"]) (simp_all add: power_int_minus)
  then show ?thesis by simp
qed

lemma fl_indent_mm: "fl (8221884069718261 / 4503599627370496 * (2836913151099525 / 72057594037927936)) = 2589569785738035 / 36028797018963968"
proof -
  have "fl (23324771044199418507789120926025 / 324518553658426726783156020576256) = of_int (5179139571476070) * (1 / 2 ^ 56)"
    by (rule fl_eq[where k = "-56"]) (simp_all add: power_int_minus)
  then show ?thesis by simp
qed

lemma fl_indent_twips: "fl (2589569785738035 / 36028797018963968 * 1440) = 7283165022388223 / 70368744177664"
proof -
  have "fl (116530640358211575 / 1125899906842624) = of_int (7283165022388223) * (1 / 2 ^ 46)"
    by (rule fl_eq[where k = "-46"]) (simp_all add: power_int_minus)
  then show ?thesis by simp
qed

lemma MM_TO_INCH_value: "MM_TO_INCH = 2836913151099525 / 72057594037927936"
  unfolding MM_TO_INCH_def fl_254_10 by (rule fl_inv_254)

lemma MARGIN_20MM_TWIPS_value: "MARGIN_20MM_TWIPS = 1134"
  unfolding MARGIN_20MM_TWIPS_def MM_TO_INCH_value TWIPS_PER_INCH_def fl_20_mm fl_20_mm_twips
  by (rule py_round_unique) simp_all

lemma expected_indent_default: "expected_indent_twips default_rules = 709"
proof -
  have "fl (paragraph_indent_cm default_rules * 10) = 25 / 2"
    using fl_representable[of "25 / 2" 25 "- 1"]
    by (simp add: default_rules_def INDENT_CM_def power_int_minus)
  then show ?thesis
    unfolding expected_indent_twips_def MM_TO_INCH_value TWIPS_PER_INCH_def
    by (simp only: fl_125_mm fl_125_mm_twips) (rule py_round_unique, simp_all)
qed

lemma LINE_SPACING_TARGET_value: "LINE_SPACING_TARGET = 2589569785738035 / 2251799813685248"
  unfolding LINE_SPACING_TARGET_def by (rule fl_115_100)

lemma LINE_SPACING_TOL_value: "LINE_SPACING_TOL = 1080863910568919 / 18014398509481984"
  unfolding LINE_SPACING_TOL_def by (rule fl_6_100)

lemma pt_points: "\<bar>n\<bar> < 2 ^ 39 \<Longrightarrow> pt (12700 * n) = of_int n"
proof -
  assume n: "\<bar>n\<bar> < 2 ^ 39"
  then have "\<bar>12700 * n\<bar> < 2 ^ 53" by (simp add: abs_mult)
  then have "fl (of_int (12700 * n)) = of_int (12700 * n)" by (rule fl_of_int)
  moreover from n have "fl (of_int n) = of_int n" by (intro fl_of_int) simp
  ultimately show ?thesis by (simp add: pt_def)
qed

lemma pt_14: "pt 177800 = 14"
  using pt_points[of 14] by simp

lemma pt_12: "pt 152400 = 12"
  using pt_points[of 12] by simp

lemma pt_10: "pt 127000 = 10"
  using pt_points[of 10] by simp

text \<open>
  Two inputs on which rounding decides. An indent of 0.1825625 cm is expected as 103
  twips: the float product is just below 103.5, where the exact product is 103.5. A
  paragraph spacing of 1.0 under a rule of 1.06 is reported: the float difference is
  above the float tolerance, where the exact difference is 0.06.
\<close>

lemma expected_indent_rounds_down:
  "expected_indent_twips (default_rules\<lparr>paragraph_indent_cm := fl (2921 / 16000)\<rparr>) = 103"
proof -
  have "expected_indent_twips (default_rules\<lparr>paragraph_indent_cm := fl (2921 / 16000)\<rparr>)
      = py_round (fl (fl (fl (fl (2921 / 16000) * 10) * MM_TO_INCH) * 1440))"
    by (simp add: expected_indent_twips_def TWIPS_PER_INCH_def)
  also have "\<dots> = py_round (7283165022388223 / 70368744177664)"
    by (simp only: fl_indent_cm fl_indent_cm_10 MM_TO_INCH_value fl_indent_mm fl_indent_twips)
  also have "\<dots> = 103"
    by (rule py_round_unique) simp_all
  finally show ?thesis .
qed

lemma line_spacing_float_difference:
  "check_line_spacing (default_rules\<lparr>line_spacing := fl (106 / 100)\<rparr>)
     (empty_paragraph\<lparr>p_line_spacing := Some (Multiple 1)\<rparr>)
   = [line_spacing_mismatch_issue (default_rules\<lparr>line_spacing := fl (106 / 100)\<rparr>) 1]"
proof -
  have a: "fl (53 / 50) = 2386907802506363 / 2251799813685248"
    using fl_106_100 by simp
  have b: "fl (- (135107988821115 / 2251799813685248)) = - (135107988821115 / 2251799813685248)"
    using fl_representable[of "- (135107988821115 / 2251799813685248)" "- 135107988821115" "- 51"]
    by (simp add: power_int_minus)
  show ?thesis
    by (simp add: check_line_spacing_def empty_paragraph_def a b LINE_SPACING_TOL_value)
qed

section \<open>The pattern tests are those of the regular language\<close>

lemma nullable_lang: "nullable r \<longleftrightarrow> [] \<in> lang r"
  by (induction r) (auto intro: star.intros)

lemma star_cons:
  "c # w \<in> star L \<longleftrightarrow> (\<exists>x y. w = x @ y \<and> c # x \<in> L \<and> y \<in> star L)"
proof
  assume "c # w \<in> star L"
  then show "\<exists>x y. w = x @ y \<and> c # x \<in> L \<and> y \<in> star L"
  proof (induction "c # w" arbitrary: w rule: star.induct)
    case (star_step x y)
    show ?case
    proof (cases x)
      case Nil
      with star_step show ?thesis by simp
    next
      case (Cons a x')
      with star_step.hyps have "w = x' @ y" "c # x' \<in> L" "y \<in> star L" by simp_all
      then show ?thesis by blast
    qed
  qed
next
  assume "\<exists>x y. w = x @ y \<and> c # x \<in> L \<and> y \<in> star L"
  then obtain x y where "w = x @ y" "c # x \<in> L" "y \<in> star L" by blast
  then have "(c # x) @ y \<in> star L" by (intro star.star_step)
  with \<open>w = x @ y\<close> show "c # w \<in> star L" by simp
qed

lemma deriv_lang: "w \<in> lang (deriv c r) \<longleftrightarrow> c # w \<in> lang r"
proof (induction r arbitrary: w)
  case (Seq r s)
  show ?case
  proof
    assume "w \<in> lang (deriv c (Seq r s))"
    then consider x y where "w = x @ y" "x \<in> lang (deriv c r)" "y \<in> lang s"
      | "nullable r" "w \<in> lang (deriv c s)"
      by (auto split: if_splits)
    then show "c # w \<in> lang (Seq r s)"
    proof cases
      case 1
      then have "(c # x) @ y = c # w" "c # x \<in> lang r" by (simp_all add: Seq.IH)
      with 1(3) show ?thesis by (metis (mono_tags, lifting) lang.simps(5) mem_Collect_eq)
    next
      case 2
      then have "[] \<in> lang r" "c # w \<in> lang s" by (simp_all add: nullable_lang Seq.IH)
      then have "[] @ (c # w) \<in> lang (Seq r s)" unfolding lang.simps by blast
      then show ?thesis by simp
    qed
  next
    assume "c # w \<in> lang (Seq r s)"
    then obtain x y where xy: "c # w = x @ y" "x \<in> lang r" "y \<in> lang s" by auto
    show "w \<in> lang (deriv c (Seq r s))"
    proof (cases x)
      case Nil
      with xy have "nullable r" "w \<in> lang (deriv c s)" by (simp_all add: nullable_lang Seq.IH)
      then show ?thesis by simp
    next
      case (Cons a x')
      with xy have "w = x' @ y" "c # x' \<in> lang r" by simp_all
      then have "w = x' @ y" "x' \<in> lang (deriv c r)" by (simp_all add: Seq.IH)
      with xy(3) have "w \<in> lang (Seq (deriv c r) s)" by auto
      then show ?thesis by simp
    qed
  qed
next
  case (Star r)
  have "w \<in> lang (deriv c (Star r))
      \<longleftrightarrow> (\<exists>x y. w = x @ y \<and> x \<in> lang (deriv c r) \<and> y \<in> star (lang r))"
    by auto
  also have "\<dots> \<longleftrightarrow> (\<exists>x y. w = x @ y \<and> c # x \<in> lang r \<and> y \<in> star (lang r))"
    by (simp add: Star.IH)
  also have "\<dots> \<longleftrightarrow> c # w \<in> lang (Star r)"
    by (simp add: star_cons)
  finally show ?case .
qed auto

lemma re_match_lang: "re_match r s \<longleftrightarrow> (\<exists>p q. s = p @ q \<and> p \<in> lang r)"
proof (induction s arbitrary: r)
  case Nil
  then show ?case by (simp add: nullable_lang)
next
  case (Cons c s)
  have "(\<exists>p q. c # s = p @ q \<and> p \<in> lang r)
      \<longleftrightarrow> [] \<in> lang r \<or> (\<exists>p q. s = p @ q \<and> c # p \<in> lang r)"
    by (auto simp: Cons_eq_append_conv)
  then show ?case by (simp add: Cons.IH nullable_lang deriv_lang)
qed

lemma re_search_lang: "re_search r s \<longleftrightarrow> (\<exists>a p q. s = a @ p @ q \<and> p \<in> lang r)"
proof (induction s)
  case Nil
  then show ?case by (simp add: nullable_lang)
next
  case (Cons c s)
  have "(\<exists>a p q. c # s = a @ p @ q \<and> p \<in> lang r)
      \<longleftrightarrow> (\<exists>p q. c # s = p @ q \<and> p \<in> lang r) \<or> (\<exists>a p q. s = a @ p @ q \<and> p \<in> lang r)"
  proof
    assume "\<exists>a p q. c # s = a @ p @ q \<and> p \<in> lang r"
    then obtain a p q where apq: "c # s = a @ p @ q" "p \<in> lang r" by blast
    show "(\<exists>p q. c # s = p @ q \<and> p \<in> lang r) \<or> (\<exists>a p q. s = a @ p @ q \<and> p \<in> lang r)"
    proof (cases a)
      case Nil
      with apq show ?thesis by auto
    next
      case (Cons c' a')
      with apq have "s = a' @ p @ q" by simp
      with apq(2) show ?thesis by blast
    qed
  next
    assume "(\<exists>p q. c # s = p @ q \<and> p \<in> lang r) \<or> (\<exists>a p q. s = a @ p @ q \<and> p \<in> lang r)"
    then show "\<exists>a p q. c # s = a @ p @ q \<and> p \<in> lang r"
    proof
      assume "\<exists>p q. c # s = p @ q \<and> p \<in> lang r"
      then obtain p q where "c # s = [] @ p @ q" "p \<in> lang r" by auto
      then show ?thesis by blast
    next
      assume "\<exists>a p q. s = a @ p @ q \<and> p \<in> lang r"
      then obtain a p q where "c # s = (c # a) @ p @ q" "p \<in> lang r" by auto
      then show ?thesis by blast
    qed
  qed
  then show ?case
    using Cons.IH re_match_lang[of r "c # s"] by simp
qed

subsection \<open>Page setup\<close>

lemma in_section_unique: "in_section i x \<Longrightarrow> in_section j x \<Longrightarrow> i = j"
  by (simp add: in_section_def)

lemma in_section_simps:
  "in_section j (page_not_a4_issue idx w h) = (j = idx)"
  "in_section j (margin_issue rules idx side v) = (j = idx)"
  "in_section j (header_footer_issue idx) = (j = idx)"
  by (auto simp: in_section_def detail_of_def page_not_a4_issue_def margin_issue_def
      header_footer_issue_def)

lemma code_simps:
  "code (page_not_a4_issue idx w h) = ''PAGE_NOT_A4''"
  "code (margin_issue rules idx side v) = ''MARGIN_NOT_20MM''"
  "code (header_footer_issue idx) = ''HEADER_FOOTER_PRESENT''"
  by (simp_all add: page_not_a4_issue_def margin_issue_def header_footer_issue_def)

lemma check_margins_in_section:
  "x \<in> set (check_margins rules idx sides) \<Longrightarrow> in_section idx x \<and> code x = ''MARGIN_NOT_20MM''"
  by (induction rules idx sides rule: check_margins.induct)
     (auto simp: in_section_simps code_simps split: if_splits)

lemma findings_append: "findings c (xs @ ys) = findings c xs @ findings c ys"
  by (simp add: findings_def)

lemma findings_all: "(\<And>x. x \<in> set xs \<Longrightarrow> code x = c) \<Longrightarrow> findings c xs = xs"
  by (simp add: findings_def)

lemma findings_none: "(\<And>x. x \<in> set xs \<Longrightarrow> code x \<noteq> c) \<Longrightarrow> findings c xs = []"
  by (simp add: findings_def)

lemma check_section_cases:
  assumes "check_section rules idx s = Inr f"
  obtains w h tm bm lm rm where
    "page_width s = Some w" "page_height s = Some h" "top_margin s = Some tm"
    "bottom_margin s = Some bm" "left_margin s = Some lm" "right_margin s = Some rm"
    "f = (if \<not> (11700 \<le> w \<and> w \<le> 12150 \<and> 16600 \<le> h \<and> h \<le> 17050)
              then [page_not_a4_issue idx w h] else [])
             @ check_margins rules idx
                 [(''top'', tm), (''bottom'', bm), (''left'', lm), (''right'', rm)]
             @ (if section_has_header_footer_text s then [header_footer_issue idx] else [])"
proof -
  from assms obtain w where w: "page_width s = Some w"
    by (cases "page_width s") (simp_all add: check_section_def)
  from assms w obtain h where h: "page_height s = Some h"
    by (cases "page_height s") (simp_all add: check_section_def)
  from assms w h obtain tm where tm: "top_margin s = Some tm"
    by (cases "top_margin s") (simp_all add: check_section_def)
  from assms w h tm obtain bm where bm: "bottom_margin s = Some bm"
    by (cases "bottom_margin s") (simp_all add: check_section_def)
  from assms w h tm bm obtain lm where lm: "left_margin s = Some lm"
    by (cases "left_margin s") (simp_all add: check_section_def)
  from assms w h tm bm lm obtain rm where rm: "right_margin s = Some rm"
    by (cases "right_margin s") (simp_all add: check_section_def)
  have "f = (if \<not> (11700 \<le> w \<and> w \<le> 12150 \<and> 16600 \<le> h \<and> h \<le> 17050)
              then [page_not_a4_issue idx w h] else [])
             @ check_margins rules idx
                 [(''top'', tm), (''bottom'', bm), (''left'', lm), (''right'', rm)]
             @ (if section_has_header_footer_text s then [header_footer_issue idx] else [])"
    using assms w h tm bm lm rm unfolding check_section_def by (simp del: check_margins.simps)
  with w h tm bm lm rm show thesis by (rule that)
qed

lemma check_section_in_section:
  assumes "check_section rules idx s = Inr f" "x \<in> set f"
  shows "in_section idx x"
  using assms(1)
proof (rule check_section_cases)
  fix w h tm bm lm rm
  assume f: "f = (if \<not> (11700 \<le> w \<and> w \<le> 12150 \<and> 16600 \<le> h \<and> h \<le> 17050)
              then [page_not_a4_issue idx w h] else [])
             @ check_margins rules idx
                 [(''top'', tm), (''bottom'', bm), (''left'', lm), (''right'', rm)]
             @ (if section_has_header_footer_text s then [header_footer_issue idx] else [])"
  from assms(2) consider
      "x = page_not_a4_issue idx w h"
    | "x \<in> set (check_margins rules idx
                 [(''top'', tm), (''bottom'', bm), (''left'', lm), (''right'', rm)])"
    | "x = header_footer_issue idx"
    unfolding f set_append by (auto split: if_splits simp del: check_margins.simps)
  then show ?thesis
    by cases (simp_all add: in_section_simps check_margins_in_section del: check_margins.simps)
qed

lemma check_sections_range:
  "check_sections rules k ss = Inr found \<Longrightarrow> x \<in> set found
     \<Longrightarrow> \<exists>i. k \<le> i \<and> i < k + length ss \<and> in_section i x"
proof (induction ss arbitrary: k found)
  case Nil
  then show ?case by simp
next
  case (Cons s ss)
  from Cons.prems(1) obtain f later where
    f: "check_section rules k s = Inr f" and
    later: "check_sections rules (Suc k) ss = Inr later" and
    found: "found = f @ later"
    by (auto split: sum.splits)
  from Cons.prems(2) found consider "x \<in> set f" | "x \<in> set later" by auto
  then show ?case
  proof cases
    case 1
    with f have "in_section k x" by (rule check_section_in_section)
    then show ?thesis by (intro exI[of _ k]) simp
  next
    case 2
    with Cons.IH[OF later] obtain i where "Suc k \<le> i" "i < Suc k + length ss" "in_section i x"
      by blast
    then show ?thesis by (intro exI[of _ i]) simp
  qed
qed

lemma check_sections_nth:
  "check_sections rules k ss = Inr found \<Longrightarrow> j < length ss
     \<Longrightarrow> \<exists>f. check_section rules (k + j) (ss ! j) = Inr f
            \<and> filter (in_section (k + j)) found = f"
proof (induction ss arbitrary: k found j)
  case Nil
  then show ?case by simp
next
  case (Cons s ss)
  from Cons.prems(1) obtain f later where
    f: "check_section rules k s = Inr f" and
    later: "check_sections rules (Suc k) ss = Inr later" and
    found: "found = f @ later"
    by (auto split: sum.splits)
  show ?case
  proof (cases j)
    case 0
    have "filter (in_section k) f = f"
      using check_section_in_section[OF f] by (simp add: filter_id_conv)
    moreover have "filter (in_section k) later = []"
    proof -
      have "\<not> in_section k x" if "x \<in> set later" for x
      proof
        assume k: "in_section k x"
        from check_sections_range[OF later that] obtain i where "Suc k \<le> i" "in_section i x"
          by blast
        with k show False by (auto dest: in_section_unique)
      qed
      then show ?thesis by (simp add: filter_empty_conv)
    qed
    ultimately show ?thesis using 0 f found by simp
  next
    case (Suc j')
    with Cons.prems(2) have j': "j' < length ss" by simp
    from Cons.IH[OF later j'] obtain g where
      g: "check_section rules (Suc k + j') (ss ! j') = Inr g" and
      fg: "filter (in_section (Suc k + j')) later = g"
      by blast
    have "filter (in_section (Suc k + j')) f = []"
    proof -
      have "\<not> in_section (Suc k + j') x" if "x \<in> set f" for x
        using check_section_in_section[OF f that] by (auto dest: in_section_unique)
      then show ?thesis by (simp add: filter_empty_conv)
    qed
    with g fg Suc found show ?thesis by simp
  qed
qed

lemma page_setup_section:
  assumes "check_page_setup doc rules = Inr found" "idx < length (sections doc)"
  obtains f where "check_section rules idx (sections doc ! idx) = Inr f"
    "filter (in_section idx) found = f"
  using check_sections_nth[of rules 0 "sections doc" found idx] assms
  by (auto simp: check_page_setup_def)

lemma filter_findings: "filter P (findings c xs) = findings c (filter P xs)"
  by (induction xs) (auto simp: findings_def)

lemma page_setup_codes_only:
  assumes "check_page_setup doc rules = Inr found" "x \<in> set found"
  shows "code x \<in> set page_setup_codes"
proof -
  have sec: "code y \<in> set page_setup_codes" if "check_section rules i s = Inr f" "y \<in> set f"
    for i s f y
    using that(1)
  proof (rule check_section_cases)
    fix w h tm bm lm rm
    assume f: "f = (if \<not> (11700 \<le> w \<and> w \<le> 12150 \<and> 16600 \<le> h \<and> h \<le> 17050)
              then [page_not_a4_issue i w h] else [])
             @ check_margins rules i
                 [(''top'', tm), (''bottom'', bm), (''left'', lm), (''right'', rm)]
             @ (if section_has_header_footer_text s then [header_footer_issue i] else [])"
    from that(2) consider
        "y = page_not_a4_issue i w h"
      | "y \<in> set (check_margins rules i
                 [(''top'', tm), (''bottom'', bm), (''left'', lm), (''right'', rm)])"
      | "y = header_footer_issue i"
      unfolding f set_append by (auto split: if_splits simp del: check_margins.simps)
    then show ?thesis
      by cases (simp_all add: code_simps check_margins_in_section page_setup_codes_def
          del: check_margins.simps)
  qed
  have "code y \<in> set page_setup_codes" if "check_sections rules k ss = Inr fs" "y \<in> set fs"
    for k ss fs y
    using that
  proof (induction ss arbitrary: k fs)
    case Nil
    then show ?case by simp
  next
    case (Cons s ss)
    from Cons.prems(1) obtain f later where
      f: "check_section rules k s = Inr f" and
      later: "check_sections rules (Suc k) ss = Inr later" and
      found: "fs = f @ later"
      by (auto split: sum.splits)
    from Cons.prems(2) found consider "y \<in> set f" | "y \<in> set later" by auto
    then show ?case
      by cases (auto intro: sec[OF f] Cons.IH[OF later])
  qed
  with assms show ?thesis by (simp add: check_page_setup_def)
qed

lemma check_paragraph_font_codes:
  "x \<in> set (check_paragraph_font p rules mb mi w) \<Longrightarrow> code x \<in> set header_codes"
  by (auto simp: check_paragraph_font_def Let_def header_codes_def font_name_issue_def
      font_size_issue_def not_bold_issue_def not_italic_issue_def font_unknown_issue_def
      split: if_splits)

lemma check_centered_codes:
  "x \<in> set (check_centered triples) \<Longrightarrow> code x \<in> fst ` set triples"
  by (induction triples rule: check_centered.induct)
     (auto simp: not_center_issue_def split: if_splits)

lemma header_codes_only:
  assumes "x \<in> set (check_header_structure U doc rules)"
  shows "code x \<in> set header_codes"
proof (cases "length (nonempty_paragraphs doc) < 3")
  case True
  with assms show ?thesis
    by (simp add: check_header_structure_def header_too_short_issue_def header_codes_def)
next
  case False
  define ps where "ps = nonempty_paragraphs doc"
  from assms False consider
      "x \<in> set (check_centered
                  [(''TITLE_NOT_CENTER'', ps ! 0, label_title),
                   (''AUTHORS_NOT_CENTER'', ps ! 1, label_authors),
                   (''ORG_NOT_CENTER'', ps ! 2, label_org)])"
    | "x = title_not_uppercase_issue (strip (p_text (ps ! 0)))"
    | "x \<in> set (check_paragraph_font (ps ! 0) rules True False ''title'')"
    | "x \<in> set (check_paragraph_font (ps ! 1) rules True (authors_italic rules) ''authors'')"
    | "x \<in> set (check_paragraph_font (ps ! 2) rules True False ''organization'')"
    | "x = authors_list_format_issue (ps ! 1)"
    | "x = authors_initials_issue (ps ! 1)"
    unfolding check_header_structure_def Let_def ps_def[symmetric] set_append
    by (auto split: if_splits simp del: check_centered.simps)
  then show ?thesis
  proof cases
    case 1
    from check_centered_codes[OF 1] show ?thesis by (auto simp: header_codes_def)
  qed (simp_all add: check_paragraph_font_codes,
       simp_all add: header_codes_def title_not_uppercase_issue_def
         authors_list_format_issue_def authors_initials_issue_def)
qed

lemma check_body_runs_codes:
  "x \<in> set (check_body_runs rules t rs) \<Longrightarrow> code x \<in> set body_codes"
  by (induction rules t rs rule: check_body_runs.induct)
     (auto simp: body_codes_def body_font_name_issue_def body_font_size_issue_def
       split: if_splits)

lemma check_body_paragraph_codes:
  assumes "x \<in> set (check_body_paragraph rules p)"
  shows "code x \<in> set body_codes"
proof -
  from assms consider
      "x = body_not_justified_issue (strip (p_text p))"
    | "x \<in> set (check_line_spacing rules p)"
    | "x \<in> set (check_indent rules p)"
    | "x \<in> set (check_body_runs rules (strip (p_text p)) (p_runs p))"
    unfolding check_body_paragraph_def Let_def set_append
    by (auto split: if_splits)
  then show ?thesis
  proof cases
    case 2
    then show ?thesis
      by (auto simp: check_line_spacing_def body_codes_def line_spacing_mismatch_issue_def
          line_spacing_absolute_issue_def split: option.splits if_splits)
  next
    case 3
    then show ?thesis
      by (auto simp: check_indent_def Let_def body_codes_def indent_mismatch_issue_def
          split: option.splits if_splits)
  qed (simp_all add: check_body_runs_codes, simp add: body_codes_def body_not_justified_issue_def)
qed

lemma body_codes_only:
  "x \<in> set (check_body_paragraphs U doc rules) \<Longrightarrow> code x \<in> set body_codes"
  by (auto simp: check_body_paragraphs_def dest: check_body_paragraph_codes split: if_splits)

lemma literature_codes_only:
  "x \<in> set (check_literature U doc rules) \<Longrightarrow> code x \<in> set literature_codes"
  by (auto simp: check_literature_def Let_def literature_codes_def literature_missing_issue_def
      literature_not_at_end_issue_def literature_items_issue_def
      split: if_splits option.splits)

lemma check_caption_runs_codes:
  "x \<in> set (check_caption_runs t rs) \<Longrightarrow> code x = ''CAPTION_SIZE_MISMATCH''"
  by (induction t rs rule: check_caption_runs.induct)
     (auto simp: caption_size_issue_def split: if_splits)

lemma caption_codes_only:
  "x \<in> set (check_captions U doc) \<Longrightarrow> code x \<in> set caption_codes"
  by (auto simp: check_captions_def check_caption_def Let_def caption_codes_def
      dest: check_caption_runs_codes split: if_splits)

lemma length_codes_only:
  "x \<in> set (check_length_heuristic doc) \<Longrightarrow> code x \<in> set length_codes"
  by (auto simp: check_length_heuristic_def Let_def length_codes_def
      length_too_short_issue_def length_too_long_issue_def split: if_splits)

lemma validate_cases:
  assumes "validate_thesis_docx U load path rules_arg = Inr report"
  obtains doc page_issues where
    "load path = Inr doc"
    "check_page_setup doc (rules_or_default rules_arg) = Inr page_issues"
    "issues report = page_issues
       @ check_header_structure U doc (rules_or_default rules_arg)
       @ check_body_paragraphs U doc (rules_or_default rules_arg)
       @ check_literature U doc (rules_or_default rules_arg)
       @ check_captions U doc
       @ check_length_heuristic doc"
    "ok report = (\<not> list_ex (\<lambda>i. severity i = ERROR) (issues report))"
proof -
  from assms obtain doc where doc: "load path = Inr doc"
    by (cases "load path") (simp_all add: validate_thesis_docx_def Let_def)
  from assms doc obtain page_issues where
    page: "check_page_setup doc (rules_or_default rules_arg) = Inr page_issues"
    by (cases "check_page_setup doc (rules_or_default rules_arg)")
       (simp_all add: validate_thesis_docx_def Let_def)
  from assms doc page have
    "report = \<lparr>ok = \<not> list_ex (\<lambda>i. severity i = ERROR) (page_issues
       @ check_header_structure U doc (rules_or_default rules_arg)
       @ check_body_paragraphs U doc (rules_or_default rules_arg)
       @ check_literature U doc (rules_or_default rules_arg)
       @ check_captions U doc
       @ check_length_heuristic doc),
      issues = page_issues
       @ check_header_structure U doc (rules_or_default rules_arg)
       @ check_body_paragraphs U doc (rules_or_default rules_arg)
       @ check_literature U doc (rules_or_default rules_arg)
       @ check_captions U doc
       @ check_length_heuristic doc\<rparr>"
    by (simp add: validate_thesis_docx_def Let_def)
  then have "issues report = page_issues
       @ check_header_structure U doc (rules_or_default rules_arg)
       @ check_body_paragraphs U doc (rules_or_default rules_arg)
       @ check_literature U doc (rules_or_default rules_arg)
       @ check_captions U doc
       @ check_length_heuristic doc"
    and "ok report = (\<not> list_ex (\<lambda>i. severity i = ERROR) (issues report))"
    by simp_all
  with doc page show thesis by (rule that)
qed

subsection \<open>Evaluating the examples\<close>

lemmas example_defs =
  two_line_doc_def blank_doc_def margin_doc_def indent_doc_def fig_doc_def
  title_line_def authors_line_def org_line_def header_line_def header_run_def body_line_def
  empty_paragraph_def quiet_section_def fig_caption_def ris_caption_def ris_caption_12_def
  ris_text_def tab_text_def tab_caption_def caption_doc_def unset_line_def styled_line_def

lemmas string_defs = strip_def u_def isspace_def

lemma default_margin: "margin_twips default_rules = 1134"
  by (simp add: default_rules_def MARGIN_20MM_TWIPS_value)

lemma page_setup_quiet:
  "check_section default_rules idx quiet_section = Inr []"
  by (simp add: check_section_def quiet_section_def default_margin MARGIN_TWIPS_TOL_def
      section_has_header_footer_text_def string_defs)

lemma page_setup_two_line: "check_page_setup two_line_doc default_rules = Inr []"
  by (simp add: check_page_setup_def two_line_doc_def page_setup_quiet)

lemma nonempty_two_line: "nonempty_paragraphs two_line_doc = [title_line, authors_line]"
  by (simp add: nonempty_paragraphs_def example_defs string_defs)

lemma header_two_line:
  "check_header_structure basic_unicode two_line_doc default_rules = [header_too_short_issue]"
  by (simp add: check_header_structure_def nonempty_two_line)

lemma body_two_line: "check_body_paragraphs basic_unicode two_line_doc default_rules = []"
  by (simp add: check_body_paragraphs_def nonempty_two_line)

lemma literature_two_line:
  "check_literature basic_unicode two_line_doc default_rules = [literature_missing_issue]"
  by (simp add: check_literature_def nonempty_two_line is_literature_heading_def
      basic_unicode_def LITERATURE_def default_rules_def title_line_def authors_line_def
      header_line_def string_defs)

lemma captions_two_line: "check_captions basic_unicode two_line_doc = []"
  by (simp add: check_captions_def check_caption_def is_caption_def figure_pattern_def
      table_pattern_def Chr_def two_line_doc_def title_line_def authors_line_def
      header_line_def empty_paragraph_def string_defs)

lemma text_chars_two_line: "text_chars two_line_doc = 40"
  by (simp add: text_chars_def example_defs string_defs)

lemma length_two_line:
  "check_length_heuristic two_line_doc = [length_too_short_issue 40]"
  by (simp add: check_length_heuristic_def text_chars_two_line MIN_TEXT_CHARS_def
      MAX_TEXT_CHARS_def)

lemma run_two_line:
  "validate_thesis_docx basic_unicode (\<lambda>_. Inr two_line_doc) () None = Inr
     \<lparr>ok = False,
      issues = [header_too_short_issue, literature_missing_issue, length_too_short_issue 40]\<rparr>"
  by (simp add: validate_thesis_docx_def rules_or_default_def page_setup_two_line
      header_two_line body_two_line literature_two_line captions_two_line length_two_line
      header_too_short_issue_def)

section \<open>The verdict\<close>

lemma check_page_setup_total:
  assumes "list_all has_geometry (sections doc)"
  shows "\<exists>found. check_page_setup doc rules = Inr found"
proof -
  have "\<exists>found. check_sections rules k ss = Inr found" if "list_all has_geometry ss" for k ss
    using that
  proof (induction ss arbitrary: k)
    case Nil
    then show ?case by simp
  next
    case (Cons s ss)
    then obtain w h tm bm lm rm where
      "page_width s = Some w" "page_height s = Some h" "top_margin s = Some tm"
      "bottom_margin s = Some bm" "left_margin s = Some lm" "right_margin s = Some rm"
      by (auto simp: has_geometry_def)
    then obtain f where f: "check_section rules k s = Inr f"
      by (simp add: check_section_def del: check_margins.simps)
    from Cons.IH[of "Suc k"] Cons.prems obtain later where
      "check_sections rules (Suc k) ss = Inr later" by auto
    with f show ?case by simp
  qed
  with assms show ?thesis by (simp add: check_page_setup_def)
qed

text \<open>
  C1. Whenever \<open>validate_thesis_docx\<close> returns a report, its \<open>ok\<close> holds exactly when no
  finding of its \<open>issues\<close> has severity \<open>ERROR\<close>; and it does return a report whenever the
  document loads and each of its sections has its page dimensions and margins.
\<close>

theorem report_ok_iff_no_error:
  "(validate_thesis_docx U load path rules_arg = Inr report
      \<longrightarrow> ok report = (\<forall>i \<in> set (issues report). severity i \<noteq> ERROR))
   \<and> (load path = Inr doc \<and> list_all has_geometry (sections doc)
      \<longrightarrow> (\<exists>r. validate_thesis_docx U load path rules_arg = Inr r))"
proof (intro conjI impI)
  assume "validate_thesis_docx U load path rules_arg = Inr report"
  then show "ok report = (\<forall>i \<in> set (issues report). severity i \<noteq> ERROR)"
  proof (rule validate_cases)
    assume "ok report = (\<not> list_ex (\<lambda>i. severity i = ERROR) (issues report))"
    then show ?thesis by (simp add: list_ex_iff)
  qed
next
  assume "load path = Inr doc \<and> list_all has_geometry (sections doc)"
  then have doc: "load path = Inr doc" and "list_all has_geometry (sections doc)"
    by simp_all
  from check_page_setup_total[OF this(2), of "rules_or_default rules_arg"] obtain found where
    "check_page_setup doc (rules_or_default rules_arg) = Inr found" by blast
  with doc show "\<exists>r. validate_thesis_docx U load path rules_arg = Inr r"
    by (simp add: validate_thesis_docx_def Let_def)
qed

theorem report_ok_iff_no_error_witness:
  "list_all has_geometry (sections two_line_doc)
   \<and> (\<exists>report. validate_thesis_docx basic_unicode (\<lambda>_. Inr two_line_doc) () None = Inr report
     \<and> \<not> ok report
     \<and> ok report = (\<forall>i \<in> set (issues report). severity i \<noteq> ERROR))"
proof -
  have "list_all has_geometry (sections two_line_doc)"
    by (simp add: two_line_doc_def quiet_section_def has_geometry_def)
  with report_ok_iff_no_error[of basic_unicode "\<lambda>_. Inr two_line_doc" "()" None _ two_line_doc,
      THEN conjunct1, rule_format, OF run_two_line] run_two_line
  show ?thesis by simp
qed

lemma filter_codes_disjoint:
  assumes "\<And>x. x \<in> set xs \<Longrightarrow> code x \<in> set cs" "set cs \<inter> set hs = {}"
  shows "filter (\<lambda>i. code i \<in> set hs) xs = []"
  using assms by (auto simp: filter_empty_conv)

lemma findings_other_codes:
  assumes "\<And>x. x \<in> set xs \<Longrightarrow> code x \<in> set cs" "c \<notin> set cs"
  shows "findings c xs = []"
  using assms by (auto simp: findings_def filter_empty_conv)

lemma codes_disjoint:
  "set page_setup_codes \<inter> set header_codes = {}"
  "set body_codes \<inter> set header_codes = {}"
  "set literature_codes \<inter> set header_codes = {}"
  "set caption_codes \<inter> set header_codes = {}"
  "set length_codes \<inter> set header_codes = {}"
  by (simp_all add: page_setup_codes_def body_codes_def literature_codes_def caption_codes_def
      length_codes_def header_codes_def)

section \<open>Page setup\<close>

lemma findings_a4_part:
  "findings c (if b then [page_not_a4_issue idx w h] else [])
     = (if b \<and> c = ''PAGE_NOT_A4'' then [page_not_a4_issue idx w h] else [])"
  by (auto simp: findings_def code_simps)

lemma findings_hf_part:
  "findings c (if b then [header_footer_issue idx] else [])
     = (if b \<and> c = ''HEADER_FOOTER_PRESENT'' then [header_footer_issue idx] else [])"
  by (auto simp: findings_def code_simps)

lemma findings_margins:
  "findings c (check_margins rules idx sides)
     = (if c = ''MARGIN_NOT_20MM'' then check_margins rules idx sides else [])"
proof (cases "c = ''MARGIN_NOT_20MM''")
  case True
  then show ?thesis by (simp add: findings_all check_margins_in_section)
next
  case False
  then have "findings c (check_margins rules idx sides) = []"
    by (intro findings_none) (auto dest: check_margins_in_section)
  with False show ?thesis by simp
qed

lemma margin_findings_of_section:
  assumes "check_page_setup doc rules = Inr found" "idx < length (sections doc)"
    and "top_margin (sections doc ! idx) = Some tm"
    and "bottom_margin (sections doc ! idx) = Some bm"
    and "left_margin (sections doc ! idx) = Some lm"
    and "right_margin (sections doc ! idx) = Some rm"
  shows "filter (in_section idx) (findings ''MARGIN_NOT_20MM'' found)
           = check_margins rules idx
               [(''top'', tm), (''bottom'', bm), (''left'', lm), (''right'', rm)]"
  using assms(1,2)
proof (rule page_setup_section)
  fix f
  assume f: "check_section rules idx (sections doc ! idx) = Inr f"
    and ff: "filter (in_section idx) found = f"
  from f have "findings ''MARGIN_NOT_20MM'' f = check_margins rules idx
               [(''top'', tm), (''bottom'', bm), (''left'', lm), (''right'', rm)]"
  proof (rule check_section_cases)
    fix w h tm' bm' lm' rm'
    assume "top_margin (sections doc ! idx) = Some tm'"
      "bottom_margin (sections doc ! idx) = Some bm'"
      "left_margin (sections doc ! idx) = Some lm'"
      "right_margin (sections doc ! idx) = Some rm'"
    with assms(3-6) have same: "tm' = tm" "bm' = bm" "lm' = lm" "rm' = rm" by simp_all
    assume feq: "f = (if \<not> (11700 \<le> w \<and> w \<le> 12150 \<and> 16600 \<le> h \<and> h \<le> 17050)
              then [page_not_a4_issue idx w h] else [])
             @ check_margins rules idx
                 [(''top'', tm'), (''bottom'', bm'), (''left'', lm'), (''right'', rm')]
             @ (if section_has_header_footer_text (sections doc ! idx)
                then [header_footer_issue idx] else [])"
    show ?thesis
      unfolding feq same findings_append findings_a4_part findings_hf_part findings_margins
      by (simp del: check_margins.simps)
  qed
  with ff show ?thesis by (simp add: filter_findings del: check_margins.simps)
qed

lemma header_footer_findings_of_section:
  assumes "check_page_setup doc rules = Inr found" "idx < length (sections doc)"
  shows "filter (in_section idx) (findings ''HEADER_FOOTER_PRESENT'' found)
           = (if section_has_header_footer_text (sections doc ! idx)
              then [header_footer_issue idx] else [])"
  using assms(1,2)
proof (rule page_setup_section)
  fix f
  assume f: "check_section rules idx (sections doc ! idx) = Inr f"
    and ff: "filter (in_section idx) found = f"
  from f have "findings ''HEADER_FOOTER_PRESENT'' f
                 = (if section_has_header_footer_text (sections doc ! idx)
                    then [header_footer_issue idx] else [])"
  proof (rule check_section_cases)
    fix w h tm bm lm rm
    assume feq: "f = (if \<not> (11700 \<le> w \<and> w \<le> 12150 \<and> 16600 \<le> h \<and> h \<le> 17050)
              then [page_not_a4_issue idx w h] else [])
             @ check_margins rules idx
                 [(''top'', tm), (''bottom'', bm), (''left'', lm), (''right'', rm)]
             @ (if section_has_header_footer_text (sections doc ! idx)
                then [header_footer_issue idx] else [])"
    show ?thesis
      unfolding feq findings_append findings_a4_part findings_hf_part findings_margins
      by (simp del: check_margins.simps)
  qed
  with ff show ?thesis by (simp add: filter_findings)
qed

lemma has_text_iff: "has_text ps = (\<exists>t \<in> set ps. strip t \<noteq> [])"
  by (induction ps) auto

lemma page_setup_margin_doc:
  "check_page_setup margin_doc default_rules
     = Inr [margin_issue default_rules 1 ''left'' 1200, header_footer_issue 1]"
  by (simp add: check_page_setup_def margin_doc_def page_setup_quiet, 
      simp add: check_section_def quiet_section_def default_margin MARGIN_TWIPS_TOL_def
      section_has_header_footer_text_def string_defs)

text \<open>
  C3. A section of an A4 page whose four margins are 20 mm, which is the configured
  margin of 1134 twips, reaches the check as 720090 English Metric Units a side. Under
  the default rules the page setup check reports every one of its four sides as
  \<open>MARGIN_NOT_20MM\<close>, and the page as \<open>PAGE_NOT_A4\<close>: it compares the counts of English
  Metric Units with constants that are counts of twips. So margins equal to the
  configured margin do not give zero \<open>MARGIN_NOT_20MM\<close> findings.
\<close>

theorem real_a4_margins_reported:
  "check_page_setup real_a4_doc default_rules
     = Inr [page_not_a4_issue 0 7560310 10692130,
            margin_issue default_rules 0 ''top'' 720090,
            margin_issue default_rules 0 ''bottom'' 720090,
            margin_issue default_rules 0 ''left'' 720090,
            margin_issue default_rules 0 ''right'' 720090]
   \<and> map severity
         (findings ''MARGIN_NOT_20MM''
            [page_not_a4_issue 0 7560310 10692130,
             margin_issue default_rules 0 ''top'' 720090,
             margin_issue default_rules 0 ''bottom'' 720090,
             margin_issue default_rules 0 ''left'' 720090,
             margin_issue default_rules 0 ''right'' 720090])
       = [ERROR, ERROR, ERROR, ERROR]
   \<and> map (\<lambda>side. side real_a4_section) [top_margin, bottom_margin, left_margin, right_margin]
       = replicate 4 (Some (emu_of_twips (margin_twips default_rules)))
   \<and> mm_of_emu 720090 = 20 + 1 / 400
   \<and> page_width real_a4_section = Some (emu_of_twips 11906)
   \<and> page_height real_a4_section = Some (emu_of_twips 16838)"
proof -
  have "check_section default_rules 0 real_a4_section
      = Inr [page_not_a4_issue 0 7560310 10692130,
            margin_issue default_rules 0 ''top'' 720090,
            margin_issue default_rules 0 ''bottom'' 720090,
            margin_issue default_rules 0 ''left'' 720090,
            margin_issue default_rules 0 ''right'' 720090]"
    by (simp add: check_section_def real_a4_section_def default_margin MARGIN_TWIPS_TOL_def
        section_has_header_footer_text_def string_defs)
  then have "check_page_setup real_a4_doc default_rules
      = Inr [page_not_a4_issue 0 7560310 10692130,
            margin_issue default_rules 0 ''top'' 720090,
            margin_issue default_rules 0 ''bottom'' 720090,
            margin_issue default_rules 0 ''left'' 720090,
            margin_issue default_rules 0 ''right'' 720090]"
    by (simp add: check_page_setup_def real_a4_doc_def)
  moreover have "map severity
         (findings ''MARGIN_NOT_20MM''
            [page_not_a4_issue 0 7560310 10692130,
             margin_issue default_rules 0 ''top'' 720090,
             margin_issue default_rules 0 ''bottom'' 720090,
             margin_issue default_rules 0 ''left'' 720090,
             margin_issue default_rules 0 ''right'' 720090])
       = [ERROR, ERROR, ERROR, ERROR]"
    by (simp add: findings_def page_not_a4_issue_def margin_issue_def)
  moreover have "map (\<lambda>side. side real_a4_section)
         [top_margin, bottom_margin, left_margin, right_margin]
       = replicate 4 (Some (emu_of_twips (margin_twips default_rules)))"
    by (simp add: real_a4_section_def emu_of_twips_def default_margin numeral_eq_Suc)
  moreover have "mm_of_emu 720090 = 20 + 1 / 400"
    "page_width real_a4_section = Some (emu_of_twips 11906)"
    "page_height real_a4_section = Some (emu_of_twips 16838)"
    by (simp_all add: mm_of_emu_def real_a4_section_def emu_of_twips_def)
  ultimately show ?thesis by (simp only: simp_thms)
qed

lemma nonempty_margin_doc: "nonempty_paragraphs margin_doc = []"
  by (simp add: nonempty_paragraphs_def margin_doc_def empty_paragraph_def string_defs)

lemma text_chars_margin_doc: "text_chars margin_doc = 0"
  by (simp add: text_chars_def margin_doc_def empty_paragraph_def string_defs)

lemma run_margin_doc:
  "validate_thesis_docx basic_unicode (\<lambda>_. Inr margin_doc) () None = Inr
     \<lparr>ok = False,
      issues = [margin_issue default_rules 1 ''left'' 1200, header_footer_issue 1,
                header_too_short_issue, length_too_short_issue 0]\<rparr>"
proof -
  have "check_header_structure basic_unicode margin_doc default_rules = [header_too_short_issue]"
    by (simp add: check_header_structure_def nonempty_margin_doc)
  moreover have "check_body_paragraphs basic_unicode margin_doc default_rules = []"
    by (simp add: check_body_paragraphs_def nonempty_margin_doc)
  moreover have "check_literature basic_unicode margin_doc default_rules = []"
    by (simp add: check_literature_def nonempty_margin_doc)
  moreover have "check_captions basic_unicode margin_doc = []"
    by (simp add: check_captions_def check_caption_def margin_doc_def empty_paragraph_def
        string_defs)
  moreover have "check_length_heuristic margin_doc = [length_too_short_issue 0]"
    by (simp add: check_length_heuristic_def text_chars_margin_doc MIN_TEXT_CHARS_def
        MAX_TEXT_CHARS_def)
  ultimately show ?thesis
    by (simp add: validate_thesis_docx_def rules_or_default_def page_setup_margin_doc
        margin_issue_def)
qed

lemma findings_of_report:
  assumes "validate_thesis_docx U load path rules_arg = Inr report" "load path = Inr doc"
  obtains page_issues where
    "check_page_setup doc (rules_or_default rules_arg) = Inr page_issues"
    "issues report = page_issues
       @ check_header_structure U doc (rules_or_default rules_arg)
       @ check_body_paragraphs U doc (rules_or_default rules_arg)
       @ check_literature U doc (rules_or_default rules_arg)
       @ check_captions U doc
       @ check_length_heuristic doc"
  using assms(1)
proof (rule validate_cases)
  fix doc' page_issues
  assume "load path = Inr doc'"
  with assms(2) have "doc' = doc" by simp
  moreover assume "check_page_setup doc' (rules_or_default rules_arg) = Inr page_issues"
    "issues report = page_issues
       @ check_header_structure U doc' (rules_or_default rules_arg)
       @ check_body_paragraphs U doc' (rules_or_default rules_arg)
       @ check_literature U doc' (rules_or_default rules_arg)
       @ check_captions U doc'
       @ check_length_heuristic doc'"
  ultimately show thesis by (intro that[of page_issues]) simp_all
qed

lemma section_has_header_footer_text_iff:
  "section_has_header_footer_text s =
     ((\<exists>ps. header s = Some ps \<and> (\<exists>t \<in> set ps. strip t \<noteq> []))
      \<or> (\<exists>ps. footer s = Some ps \<and> (\<exists>t \<in> set ps. strip t \<noteq> [])))"
  by (auto simp: section_has_header_footer_text_def has_text_iff split: option.splits)

text \<open>
  C10. In the report of a run, every section has at most one \<open>HEADER_FOOTER_PRESENT\<close>
  finding: it has one exactly when \<open>section_has_header_footer_text\<close> holds of it, which is
  the one boolean for "some header paragraph or some footer paragraph has non-blank text".
\<close>

theorem header_footer_finding_at_most_once:
  assumes "validate_thesis_docx U load path rules_arg = Inr report" and "load path = Inr doc"
    and "idx < length (sections doc)"
  shows "length (filter (in_section idx) (findings ''HEADER_FOOTER_PRESENT'' (issues report))) \<le> 1
       \<and> filter (in_section idx) (findings ''HEADER_FOOTER_PRESENT'' (issues report))
           = (if section_has_header_footer_text (sections doc ! idx)
              then [header_footer_issue idx] else [])
       \<and> section_has_header_footer_text (sections doc ! idx)
           = ((\<exists>ps. header (sections doc ! idx) = Some ps \<and> (\<exists>t \<in> set ps. strip t \<noteq> []))
              \<or> (\<exists>ps. footer (sections doc ! idx) = Some ps \<and> (\<exists>t \<in> set ps. strip t \<noteq> [])))"
  using assms(1,2)
proof (rule findings_of_report)
  fix page_issues
  let ?rules = "rules_or_default rules_arg"
  let ?c = "''HEADER_FOOTER_PRESENT''"
  assume page: "check_page_setup doc ?rules = Inr page_issues"
    and all: "issues report = page_issues
       @ check_header_structure U doc ?rules
       @ check_body_paragraphs U doc ?rules
       @ check_literature U doc ?rules
       @ check_captions U doc
       @ check_length_heuristic doc"
  have "findings ?c (check_header_structure U doc ?rules) = []"
    by (rule findings_other_codes[OF header_codes_only]) (simp_all add: header_codes_def)
  moreover have "findings ?c (check_body_paragraphs U doc ?rules) = []"
    by (rule findings_other_codes[OF body_codes_only]) (simp_all add: body_codes_def)
  moreover have "findings ?c (check_literature U doc ?rules) = []"
    by (rule findings_other_codes[OF literature_codes_only]) (simp_all add: literature_codes_def)
  moreover have "findings ?c (check_captions U doc) = []"
    by (rule findings_other_codes[OF caption_codes_only]) (simp_all add: caption_codes_def)
  moreover have "findings ?c (check_length_heuristic doc) = []"
    by (rule findings_other_codes[OF length_codes_only]) (simp_all add: length_codes_def)
  ultimately have "findings ?c (issues report) = findings ?c page_issues"
    by (simp add: all findings_append)
  with header_footer_findings_of_section[OF page assms(3)]
  have "filter (in_section idx) (findings ?c (issues report))
           = (if section_has_header_footer_text (sections doc ! idx)
              then [header_footer_issue idx] else [])"
    by simp
  then show ?thesis
    using section_has_header_footer_text_iff[of "sections doc ! idx"] by simp
qed

theorem header_footer_finding_at_most_once_witness:
  "header (sections margin_doc ! 1) = Some [u ''Draft'']
   \<and> footer (sections margin_doc ! 1) = Some [[], u ''page 1'']
   \<and> strip (u ''Draft'') \<noteq> [] \<and> strip (u ''page 1'') \<noteq> []
   \<and> (\<exists>report. validate_thesis_docx basic_unicode (\<lambda>_. Inr margin_doc) () None = Inr report
        \<and> filter (in_section 1) (findings ''HEADER_FOOTER_PRESENT'' (issues report))
            = [header_footer_issue 1]
        \<and> filter (in_section 0) (findings ''HEADER_FOOTER_PRESENT'' (issues report)) = [])"
proof -
  let ?report = "\<lparr>ok = False,
      issues = [margin_issue default_rules 1 ''left'' 1200, header_footer_issue 1,
                header_too_short_issue, length_too_short_issue 0]\<rparr>"
  have len: "0 < length (sections margin_doc)" "1 < length (sections margin_doc)"
    by (simp_all add: margin_doc_def)
  have hf: "\<not> section_has_header_footer_text (sections margin_doc ! 0)"
    "section_has_header_footer_text (sections margin_doc ! 1)"
    by (simp_all add: margin_doc_def quiet_section_def section_has_header_footer_text_def
        string_defs)
  have texts: "header (sections margin_doc ! 1) = Some [u ''Draft'']"
    "footer (sections margin_doc ! 1) = Some [[], u ''page 1'']"
    "strip (u ''Draft'') \<noteq> []" "strip (u ''page 1'') \<noteq> []"
    by (simp_all add: margin_doc_def quiet_section_def string_defs)
  have "filter (in_section 0) (findings ''HEADER_FOOTER_PRESENT'' (issues ?report)) = []"
    using header_footer_finding_at_most_once[OF run_margin_doc refl len(1),
        THEN conjunct2, THEN conjunct1] hf(1)
    by (simp only: if_False)
  moreover
  have "filter (in_section 1) (findings ''HEADER_FOOTER_PRESENT'' (issues ?report))
          = [header_footer_issue 1]"
    using header_footer_finding_at_most_once[OF run_margin_doc refl len(2),
        THEN conjunct2, THEN conjunct1] hf(2)
    by (simp only: if_True)
  ultimately show ?thesis
    using texts run_margin_doc by (intro conjI exI[of _ ?report])
qed

section \<open>Header structure\<close>

text \<open>
  C4. For a document with fewer than three non-empty paragraphs the header structure check
  returns exactly one finding, \<open>HEADER_TOO_SHORT\<close> with severity \<open>ERROR\<close>, and in the report
  of a run on the document it is the only finding with a code of the header checks:
  no centering, upper-case, font, bold, italic, authors list or initials finding appears.
\<close>

theorem header_too_short_only:
  assumes "length (nonempty_paragraphs doc) < 3"
  shows "check_header_structure U doc rules = [header_too_short_issue]
       \<and> code header_too_short_issue = ''HEADER_TOO_SHORT''
       \<and> severity header_too_short_issue = ERROR
       \<and> (\<forall>(load :: 'path \<Rightarrow> error + Document) path rules_arg report.
             load path = Inr doc \<and> validate_thesis_docx U load path rules_arg = Inr report
             \<longrightarrow> filter (\<lambda>i. code i \<in> set header_codes) (issues report)
                   = [header_too_short_issue])"
proof -
  have short: "check_header_structure U doc r = [header_too_short_issue]" for r
    using assms by (simp add: check_header_structure_def)
  have "filter (\<lambda>i. code i \<in> set header_codes) (issues report) = [header_too_short_issue]"
    if "load path = Inr doc" "validate_thesis_docx U load path rules_arg = Inr report"
    for load :: "'path \<Rightarrow> error + Document" and path rules_arg report
    using that(2,1)
  proof (rule findings_of_report)
    fix page_issues
    let ?rules = "rules_or_default rules_arg"
    let ?P = "\<lambda>i. code i \<in> set header_codes"
    assume page: "check_page_setup doc ?rules = Inr page_issues"
      and all: "issues report = page_issues
         @ check_header_structure U doc ?rules
         @ check_body_paragraphs U doc ?rules
         @ check_literature U doc ?rules
         @ check_captions U doc
         @ check_length_heuristic doc"
    have "filter ?P page_issues = []"
      by (rule filter_codes_disjoint[OF page_setup_codes_only[OF page] codes_disjoint(1)])
    moreover have "filter ?P (check_body_paragraphs U doc ?rules) = []"
      by (rule filter_codes_disjoint[OF body_codes_only codes_disjoint(2)])
    moreover have "filter ?P (check_literature U doc ?rules) = []"
      by (rule filter_codes_disjoint[OF literature_codes_only codes_disjoint(3)])
    moreover have "filter ?P (check_captions U doc) = []"
      by (rule filter_codes_disjoint[OF caption_codes_only codes_disjoint(4)])
    moreover have "filter ?P (check_length_heuristic doc) = []"
      by (rule filter_codes_disjoint[OF length_codes_only codes_disjoint(5)])
    moreover have "code header_too_short_issue \<in> set header_codes"
      by (simp add: header_too_short_issue_def header_codes_def)
    ultimately show ?thesis by (simp add: all short)
  qed
  then have "\<forall>(load :: 'path \<Rightarrow> error + Document) path rules_arg report.
             load path = Inr doc \<and> validate_thesis_docx U load path rules_arg = Inr report
             \<longrightarrow> filter (\<lambda>i. code i \<in> set header_codes) (issues report)
                   = [header_too_short_issue]"
    by blast
  moreover have "code header_too_short_issue = ''HEADER_TOO_SHORT''"
    "severity header_too_short_issue = ERROR"
    by (simp_all add: header_too_short_issue_def)
  ultimately show ?thesis using short by (intro conjI)
qed

theorem header_too_short_only_witness:
  "length (nonempty_paragraphs two_line_doc) = 2
   \<and> check_header_structure basic_unicode two_line_doc default_rules = [header_too_short_issue]
   \<and> (\<exists>report. validate_thesis_docx basic_unicode (\<lambda>_. Inr two_line_doc) () None = Inr report
        \<and> filter (\<lambda>i. code i \<in> set header_codes) (issues report) = [header_too_short_issue])"
proof -
  let ?report = "\<lparr>ok = False,
      issues = [header_too_short_issue, literature_missing_issue, length_too_short_issue 40]\<rparr>"
  have short: "length (nonempty_paragraphs two_line_doc) < 3"
    and two: "length (nonempty_paragraphs two_line_doc) = 2"
    by (simp_all add: nonempty_two_line)
  note inst = header_too_short_only[where 'path = unit, OF short, of basic_unicode default_rules]
  from inst have one: "check_header_structure basic_unicode two_line_doc default_rules
      = [header_too_short_issue]"
    by (rule conjunct1)
  from inst have every: "\<forall>(load :: unit \<Rightarrow> error + Document) path rules_arg report.
      load path = Inr two_line_doc
        \<and> validate_thesis_docx basic_unicode load path rules_arg = Inr report
      \<longrightarrow> filter (\<lambda>i. code i \<in> set header_codes) (issues report) = [header_too_short_issue]"
    by (elim conjE)
  from every[rule_format, of "\<lambda>_. Inr two_line_doc" "()" None ?report] run_two_line
  have "filter (\<lambda>i. code i \<in> set header_codes) (issues ?report) = [header_too_short_issue]"
    by simp
  with two one run_two_line show ?thesis by (intro conjI exI[of _ ?report])
qed

section \<open>Literature block\<close>

lemma first_index_None: "first_index P xs = None \<longleftrightarrow> (\<forall>x \<in> set xs. \<not> P x)"
  by (induction xs) (auto split: option.splits)

lemma nonempty_subset: "set (nonempty_paragraphs doc) \<subseteq> set (paragraphs doc)"
  by (auto simp: nonempty_paragraphs_def)

lemma check_literature_missing:
  assumes "nonempty_paragraphs doc \<noteq> []"
    and "\<forall>p \<in> set (paragraphs doc). \<not> is_literature_heading U p"
    and "require_literature_block rules"
  shows "check_literature U doc rules = [literature_missing_issue]"
proof -
  from assms(2) nonempty_subset[of doc]
  have "first_index (is_literature_heading U) (nonempty_paragraphs doc) = None"
    unfolding first_index_None by blast
  with assms(1,3) show ?thesis by (simp add: check_literature_def)
qed

lemma nonempty_blank: "nonempty_paragraphs blank_doc = []"
  by (simp add: nonempty_paragraphs_def blank_doc_def empty_paragraph_def string_defs)

lemma text_chars_blank: "text_chars blank_doc = 0"
  by (simp add: text_chars_def blank_doc_def empty_paragraph_def string_defs)

lemma run_blank:
  "validate_thesis_docx basic_unicode (\<lambda>_. Inr blank_doc) () None = Inr
     \<lparr>ok = False, issues = [header_too_short_issue, length_too_short_issue 0]\<rparr>"
proof -
  have "check_page_setup blank_doc default_rules = Inr []"
    by (simp add: check_page_setup_def blank_doc_def page_setup_quiet)
  moreover
  have "check_header_structure basic_unicode blank_doc default_rules = [header_too_short_issue]"
    by (simp add: check_header_structure_def nonempty_blank)
  moreover have "check_body_paragraphs basic_unicode blank_doc default_rules = []"
    by (simp add: check_body_paragraphs_def nonempty_blank)
  moreover have "check_literature basic_unicode blank_doc default_rules = []"
    by (simp add: check_literature_def nonempty_blank)
  moreover have "check_captions basic_unicode blank_doc = []"
    by (simp add: check_captions_def check_caption_def blank_doc_def empty_paragraph_def
        string_defs)
  moreover have "check_length_heuristic blank_doc = [length_too_short_issue 0]"
    by (simp add: check_length_heuristic_def text_chars_blank MIN_TEXT_CHARS_def
        MAX_TEXT_CHARS_def)
  ultimately show ?thesis
    by (simp add: validate_thesis_docx_def rules_or_default_def header_too_short_issue_def)
qed

text \<open>
  C5, as the specification states it, fails on a blank document: no paragraph is the
  literature heading and the block is required, yet the run reports no
  \<open>LITERATURE_MISSING\<close>, because \<open>check_literature\<close> returns at once when the document has
  no non-empty paragraph.
\<close>

theorem literature_missing_blank_counterexample:
  "filter (is_literature_heading basic_unicode) (paragraphs blank_doc) = []
   \<and> require_literature_block (rules_or_default None)
   \<and> validate_thesis_docx basic_unicode (\<lambda>_. Inr blank_doc) () None = Inr
        \<lparr>ok = False, issues = [header_too_short_issue, length_too_short_issue 0]\<rparr>
   \<and> findings ''LITERATURE_MISSING'' [header_too_short_issue, length_too_short_issue 0] = []"
  by (simp add: run_blank, simp add: blank_doc_def empty_paragraph_def is_literature_heading_def
      basic_unicode_def LITERATURE_def string_defs rules_or_default_def default_rules_def
      findings_def header_too_short_issue_def length_too_short_issue_def)

text \<open>
  C5, amended. For a document that has a non-empty paragraph and no paragraph whose
  stripped, lower-cased text is the literature heading, when the block is required:
  the literature check returns exactly one finding, \<open>LITERATURE_MISSING\<close> with severity
  \<open>ERROR\<close>, and the report of a run has that one \<open>LITERATURE_MISSING\<close> finding and neither
  a \<open>LITERATURE_NOT_AT_END\<close> nor a \<open>LITERATURE_ITEMS_FORMAT\<close> finding.
\<close>

theorem literature_missing_only:
  assumes "nonempty_paragraphs doc \<noteq> []"
    and "\<forall>p \<in> set (paragraphs doc). \<not> is_literature_heading U p"
    and "require_literature_block rules"
  shows "check_literature U doc rules = [literature_missing_issue]
       \<and> code literature_missing_issue = ''LITERATURE_MISSING''
       \<and> severity literature_missing_issue = ERROR
       \<and> (\<forall>(load :: 'path \<Rightarrow> error + Document) path rules_arg report.
             load path = Inr doc \<and> rules_or_default rules_arg = rules
             \<and> validate_thesis_docx U load path rules_arg = Inr report
             \<longrightarrow> findings ''LITERATURE_MISSING'' (issues report) = [literature_missing_issue]
                 \<and> findings ''LITERATURE_NOT_AT_END'' (issues report) = []
                 \<and> findings ''LITERATURE_ITEMS_FORMAT'' (issues report) = [])"
proof -
  have lit: "check_literature U doc rules = [literature_missing_issue]"
    using assms by (rule check_literature_missing)
  have each: "findings c (issues report) = findings c [literature_missing_issue]"
    if "load path = Inr doc" "rules_or_default rules_arg = rules"
      "validate_thesis_docx U load path rules_arg = Inr report" "c \<in> set literature_codes"
    for load :: "'path \<Rightarrow> error + Document" and path rules_arg report c
    using that(3,1)
  proof (rule findings_of_report)
    fix page_issues
    assume page: "check_page_setup doc (rules_or_default rules_arg) = Inr page_issues"
      and all: "issues report = page_issues
         @ check_header_structure U doc (rules_or_default rules_arg)
         @ check_body_paragraphs U doc (rules_or_default rules_arg)
         @ check_literature U doc (rules_or_default rules_arg)
         @ check_captions U doc
         @ check_length_heuristic doc"
    from that(4) have c: "c \<notin> set page_setup_codes" "c \<notin> set header_codes"
      "c \<notin> set body_codes" "c \<notin> set caption_codes" "c \<notin> set length_codes"
      by (auto simp: literature_codes_def page_setup_codes_def header_codes_def body_codes_def
          caption_codes_def length_codes_def)
    have "findings c page_issues = []"
      by (rule findings_other_codes[OF page_setup_codes_only[OF page] c(1)])
    moreover have "findings c (check_header_structure U doc rules) = []"
      by (rule findings_other_codes[OF header_codes_only c(2)])
    moreover have "findings c (check_body_paragraphs U doc rules) = []"
      by (rule findings_other_codes[OF body_codes_only c(3)])
    moreover have "findings c (check_captions U doc) = []"
      by (rule findings_other_codes[OF caption_codes_only c(4)])
    moreover have "findings c (check_length_heuristic doc) = []"
      by (rule findings_other_codes[OF length_codes_only c(5)])
    ultimately show ?thesis unfolding all that(2) lit findings_append by simp
  qed
  have "\<forall>(load :: 'path \<Rightarrow> error + Document) path rules_arg report.
             load path = Inr doc \<and> rules_or_default rules_arg = rules
             \<and> validate_thesis_docx U load path rules_arg = Inr report
             \<longrightarrow> findings ''LITERATURE_MISSING'' (issues report) = [literature_missing_issue]
                 \<and> findings ''LITERATURE_NOT_AT_END'' (issues report) = []
                 \<and> findings ''LITERATURE_ITEMS_FORMAT'' (issues report) = []"
  proof (intro allI impI, elim conjE)
    fix load :: "'path \<Rightarrow> error + Document" and path rules_arg report
    assume run: "load path = Inr doc" "rules_or_default rules_arg = rules"
      "validate_thesis_docx U load path rules_arg = Inr report"
    from each[OF run, of "''LITERATURE_MISSING''"] each[OF run, of "''LITERATURE_NOT_AT_END''"]
      each[OF run, of "''LITERATURE_ITEMS_FORMAT''"]
    show "findings ''LITERATURE_MISSING'' (issues report) = [literature_missing_issue]
        \<and> findings ''LITERATURE_NOT_AT_END'' (issues report) = []
        \<and> findings ''LITERATURE_ITEMS_FORMAT'' (issues report) = []"
      by (simp add: literature_codes_def, simp add: findings_def literature_missing_issue_def)
  qed
  moreover have "code literature_missing_issue = ''LITERATURE_MISSING''"
    "severity literature_missing_issue = ERROR"
    by (simp_all add: literature_missing_issue_def)
  ultimately show ?thesis using lit by (intro conjI)
qed

theorem literature_missing_only_witness:
  "nonempty_paragraphs two_line_doc = [title_line, authors_line]
   \<and> filter (is_literature_heading basic_unicode) (paragraphs two_line_doc) = []
   \<and> require_literature_block default_rules
   \<and> check_literature basic_unicode two_line_doc default_rules = [literature_missing_issue]
   \<and> (\<exists>report. validate_thesis_docx basic_unicode (\<lambda>_. Inr two_line_doc) () None = Inr report
        \<and> findings ''LITERATURE_MISSING'' (issues report) = [literature_missing_issue]
        \<and> findings ''LITERATURE_NOT_AT_END'' (issues report) = []
        \<and> findings ''LITERATURE_ITEMS_FORMAT'' (issues report) = [])"
proof -
  let ?report = "\<lparr>ok = False,
      issues = [header_too_short_issue, literature_missing_issue, length_too_short_issue 40]\<rparr>"
  have none: "filter (is_literature_heading basic_unicode) (paragraphs two_line_doc) = []"
    by (simp add: example_defs is_literature_heading_def basic_unicode_def LITERATURE_def
        string_defs)
  then have no: "\<forall>p \<in> set (paragraphs two_line_doc). \<not> is_literature_heading basic_unicode p"
    by (simp add: filter_empty_conv)
  have ne: "nonempty_paragraphs two_line_doc \<noteq> []"
    by (simp add: nonempty_two_line)
  have req: "require_literature_block default_rules"
    by (simp add: default_rules_def)
  note inst = literature_missing_only[where 'path = unit, OF ne no req]
  from inst have one: "check_literature basic_unicode two_line_doc default_rules
      = [literature_missing_issue]"
    by (rule conjunct1)
  from inst have every: "\<forall>(load :: unit \<Rightarrow> error + Document) path rules_arg report.
             load path = Inr two_line_doc \<and> rules_or_default rules_arg = default_rules
             \<and> validate_thesis_docx basic_unicode load path rules_arg = Inr report
             \<longrightarrow> findings ''LITERATURE_MISSING'' (issues report) = [literature_missing_issue]
                 \<and> findings ''LITERATURE_NOT_AT_END'' (issues report) = []
                 \<and> findings ''LITERATURE_ITEMS_FORMAT'' (issues report) = []"
    by (elim conjE)
  from every[rule_format, of "\<lambda>_. Inr two_line_doc" "()" None ?report] run_two_line
  have "findings ''LITERATURE_MISSING'' (issues ?report) = [literature_missing_issue]
      \<and> findings ''LITERATURE_NOT_AT_END'' (issues ?report) = []
      \<and> findings ''LITERATURE_ITEMS_FORMAT'' (issues ?report) = []"
    by (simp add: rules_or_default_def)
  with nonempty_two_line none req one run_two_line show ?thesis
    by (intro conjI exI[of _ ?report]) simp_all
qed

section \<open>Body paragraphs\<close>

lemma nonempty_paragraph_text: "p \<in> set (nonempty_paragraphs doc) \<Longrightarrow> strip (p_text p) \<noteq> []"
  by (simp add: nonempty_paragraphs_def)

lemma body_sample_subset: "set (body_sample U doc) \<subseteq> set (drop 3 (nonempty_paragraphs doc))"
proof -
  define body0 where "body0 = drop 3 (nonempty_paragraphs doc)"
  define body where "body = (case first_index (is_literature_heading U) body0 of
      None \<Rightarrow> body0 | Some i \<Rightarrow> take i body0)"
  have "set body \<subseteq> set body0"
    by (auto simp: body_def split: option.splits dest: in_set_takeD)
  moreover have "body_sample U doc = (if length body > 30 then take 30 body else body)"
    unfolding body_sample_def Let_def body_def body0_def by (rule refl)
  then have "set (body_sample U doc) \<subseteq> set body"
    by (auto dest: in_set_takeD)
  ultimately show ?thesis by (simp add: body0_def)
qed

lemma body_sample_nonempty:
  assumes "p \<in> set (body_sample U doc)"
  shows "strip (p_text p) \<noteq> []" and "\<not> length (nonempty_paragraphs doc) < 4"
proof -
  from assms body_sample_subset have p: "p \<in> set (drop 3 (nonempty_paragraphs doc))" by blast
  then show "strip (p_text p) \<noteq> []"
    by (auto dest: in_set_dropD nonempty_paragraph_text)
  from p have "drop 3 (nonempty_paragraphs doc) \<noteq> []" by auto
  then show "\<not> length (nonempty_paragraphs doc) < 4" by simp
qed

lemma check_line_spacing_codes:
  "x \<in> set (check_line_spacing rules p)
     \<Longrightarrow> code x = ''LINE_SPACING_MISMATCH'' \<or> code x = ''LINE_SPACING_ABSOLUTE''"
  by (auto simp: check_line_spacing_def line_spacing_mismatch_issue_def
      line_spacing_absolute_issue_def split: option.splits if_splits)

lemma check_indent_codes: "x \<in> set (check_indent rules p) \<Longrightarrow> code x = ''INDENT_MISMATCH''"
  by (auto simp: check_indent_def Let_def indent_mismatch_issue_def
      split: option.splits if_splits)

lemma check_body_runs_font_codes:
  "x \<in> set (check_body_runs rules t rs)
     \<Longrightarrow> code x = ''BODY_FONT_NAME_MISMATCH'' \<or> code x = ''BODY_FONT_SIZE_MISMATCH''"
  by (induction rules t rs rule: check_body_runs.induct)
     (auto simp: body_font_name_issue_def body_font_size_issue_def split: if_splits)

lemma findings_indent_paragraph:
  assumes "strip (p_text p) \<noteq> []"
  shows "findings ''INDENT_MISMATCH'' (check_body_paragraph rules p) = check_indent rules p"
proof -
  let ?c = "''INDENT_MISMATCH''"
  have "findings ?c (if b then [body_not_justified_issue t] else []) = []" for b t
    by (simp add: findings_def body_not_justified_issue_def)
  moreover have "findings ?c (check_line_spacing rules p) = []"
    by (rule findings_none) (auto dest: check_line_spacing_codes)
  moreover have "findings ?c (check_indent rules p) = check_indent rules p"
    by (rule findings_all) (rule check_indent_codes)
  moreover have "findings ?c (check_body_runs rules t (p_runs p)) = []" for t
    by (rule findings_none) (auto dest: check_body_runs_font_codes)
  ultimately show ?thesis
    using assms by (simp add: check_body_paragraph_def Let_def findings_append)
qed

lemma findings_concat: "findings c (concat xss) = concat (map (findings c) xss)"
  by (induction xss) (simp_all add: findings_def)

lemma check_indent_eq:
  "check_indent rules p =
     (case p_first_line_indent p of
        None \<Rightarrow> []
      | Some indent \<Rightarrow>
          if \<bar>indent - expected_indent_twips rules\<bar> > 80
          then [indent_mismatch_issue indent (expected_indent_twips rules)] else [])"
  by (simp add: check_indent_def Let_def split: option.splits)

lemma nonempty_indent_doc:
  "nonempty_paragraphs indent_doc =
     [title_line, authors_line, org_line,
      body_line (u ''First paragraph.'') (Some 450215) None]"
  by (simp add: nonempty_paragraphs_def example_defs string_defs)

lemma body_sample_indent_doc:
  "body_sample basic_unicode indent_doc =
     [body_line (u ''First paragraph.'') (Some 450215) None]"
  by (simp add: body_sample_def nonempty_indent_doc is_literature_heading_def
      basic_unicode_def body_line_def LITERATURE_def string_defs)

lemma body_line_findings:
  "strip t \<noteq> [] \<Longrightarrow>
   check_body_paragraph default_rules (body_line t (Some indent) None) =
     (if \<bar>indent - 709\<bar> > 80 then [indent_mismatch_issue indent 709] else [])"
  by (simp add: check_body_paragraph_def body_line_def check_line_spacing_def check_indent_eq
      expected_indent_default)

text \<open>
  C6. A sampled body paragraph whose first-line indent is 709 twips, the whole number of
  twips nearest to the configured 1.25 cm and less than a hundredth of a millimetre from
  it, reaches the check as 450215 English Metric Units. Under the default rules the body
  check reports it as \<open>INDENT_MISMATCH\<close>: it compares the count of English Metric Units
  with the expected indent in twips, 709, and with a tolerance of 80. So an indent within
  0.8 mm of the target does get an \<open>INDENT_MISMATCH\<close> finding.
\<close>

theorem indent_of_target_reported:
  "body_sample basic_unicode indent_doc
     = [body_line (u ''First paragraph.'') (Some 450215) None]
   \<and> check_body_paragraphs basic_unicode indent_doc default_rules
       = [indent_mismatch_issue 450215 709]
   \<and> severity (indent_mismatch_issue 450215 709) = WARNING
   \<and> paragraph_indent_cm default_rules = 125 / 100
   \<and> expected_indent_twips default_rules = 709
   \<and> emu_of_twips 709 = 450215
   \<and> \<bar>mm_of_emu 450215 - 125 / 10\<bar> < 1 / 100"
proof -
  have "strip (u ''First paragraph.'') \<noteq> []"
    by (simp add: string_defs)
  then have "check_body_paragraph default_rules
               (body_line (u ''First paragraph.'') (Some 450215) None)
             = [indent_mismatch_issue 450215 709]"
    by (simp add: body_line_findings)
  then have "check_body_paragraphs basic_unicode indent_doc default_rules
       = [indent_mismatch_issue 450215 709]"
    by (simp add: check_body_paragraphs_def nonempty_indent_doc body_sample_indent_doc)
  moreover have "severity (indent_mismatch_issue 450215 709) = WARNING"
    by (simp add: indent_mismatch_issue_def)
  moreover have "paragraph_indent_cm default_rules = 125 / 100"
    by (simp add: default_rules_def INDENT_CM_def)
  moreover have "emu_of_twips 709 = 450215" "\<bar>mm_of_emu 450215 - 125 / 10\<bar> < 1 / 100"
    by (simp_all add: emu_of_twips_def mm_of_emu_def)
  ultimately show ?thesis
    using body_sample_indent_doc expected_indent_default by (simp only: simp_thms)
qed

section \<open>Captions\<close>

lemma check_caption_runs_find:
  "check_caption_runs t rs =
     (case find caption_size_off (filter (\<lambda>r. strip (r_text r) \<noteq> []) rs) of
        None \<Rightarrow> []
      | Some r \<Rightarrow> [caption_size_issue t (the (r_font_size r))])"
  by (induction t rs rule: check_caption_runs.induct) (simp_all add: caption_size_off_def)

subsection \<open>What the caption patterns match\<close>

lemma lang_Lit: "lang (Lit m) = {m}"
  by (induction m) (auto simp: Chr_def)

lemma star_Sym: "x \<in> star (lang (Sym P)) \<longleftrightarrow> list_all P x"
proof
  assume "x \<in> star (lang (Sym P))"
  then show "list_all P x"
    by (induction rule: star.induct) auto
next
  assume "list_all P x"
  then show "x \<in> star (lang (Sym P))"
  proof (induction x)
    case Nil
    show ?case by (rule star_empty)
  next
    case (Cons c cs)
    then have "[c] \<in> lang (Sym P)" "cs \<in> star (lang (Sym P))" by simp_all
    then have "[c] @ cs \<in> star (lang (Sym P))" by (rule star_step)
    then show ?case by simp
  qed
qed

lemma lang_Seq: "x \<in> lang (Seq r s) \<longleftrightarrow> (\<exists>a b. x = a @ b \<and> a \<in> lang r \<and> b \<in> lang s)"
  by auto

lemma lang_Star_Sym: "x \<in> lang (Star (Sym P)) \<longleftrightarrow> list_all P x"
  unfolding lang.simps(6) by (rule star_Sym)

lemma lang_Plus_Sym: "x \<in> lang (Plus (Sym P)) \<longleftrightarrow> x \<noteq> [] \<and> list_all P x"
proof
  assume "x \<in> lang (Plus (Sym P))"
  then obtain a y where x: "x = a @ y" and a: "a \<in> lang (Sym P)"
    and y: "y \<in> lang (Star (Sym P))"
    unfolding Plus_def lang_Seq by blast
  from a obtain c where "a = [c]" "P c" by auto
  moreover from y have "list_all P y" by (simp only: lang_Star_Sym)
  ultimately show "x \<noteq> [] \<and> list_all P x" using x by simp
next
  assume "x \<noteq> [] \<and> list_all P x"
  then obtain c y where "x = c # y" "P c" "list_all P y"
    by (cases x) simp_all
  then have "x = [c] @ y" "[c] \<in> lang (Sym P)" "y \<in> lang (Star (Sym P))"
    by (simp_all only: lang_Star_Sym) simp_all
  then show "x \<in> lang (Plus (Sym P))"
    unfolding Plus_def lang_Seq by blast
qed

text \<open>
  A pattern \<^verbatim>\<open>^(marker\s*\d+)\<close> matches at the start of a text exactly when the text is
  the marker, then whitespace, possibly none, then a digit, then anything.
\<close>

lemma re_match_marker:
  "re_match (Seq (Lit m) (Seq (Star (Sym S)) (Plus (Sym D)))) t
     \<longleftrightarrow> (\<exists>ws d rest. t = m @ ws @ d # rest \<and> list_all S ws \<and> D d)"
proof
  assume "re_match (Seq (Lit m) (Seq (Star (Sym S)) (Plus (Sym D)))) t"
  then obtain a q where t: "t = a @ q"
    and a: "a \<in> lang (Seq (Lit m) (Seq (Star (Sym S)) (Plus (Sym D))))"
    unfolding re_match_lang by blast
  from a obtain ws ds where a': "a = m @ ws @ ds" and ws: "list_all S ws"
    and ds: "ds \<noteq> []" "list_all D ds"
    unfolding lang_Seq lang_Lit lang_Star_Sym lang_Plus_Sym by blast
  from ds obtain d ds' where "ds = d # ds'" "D d"
    by (cases ds) simp_all
  with t a' have "t = m @ ws @ d # (ds' @ q)" by simp
  with ws \<open>D d\<close> show "\<exists>ws d rest. t = m @ ws @ d # rest \<and> list_all S ws \<and> D d" by blast
next
  assume "\<exists>ws d rest. t = m @ ws @ d # rest \<and> list_all S ws \<and> D d"
  then obtain ws d rest where t: "t = m @ ws @ d # rest" and ws: "list_all S ws" and d: "D d"
    by blast
  from d have "[d] \<in> lang (Plus (Sym D))" by (simp add: lang_Plus_Sym)
  moreover from ws have "ws \<in> lang (Star (Sym S))" by (simp only: lang_Star_Sym)
  ultimately have "ws @ [d] \<in> lang (Seq (Star (Sym S)) (Plus (Sym D)))"
    unfolding lang_Seq by blast
  moreover have "m \<in> lang (Lit m)" by (simp add: lang_Lit)
  ultimately have "m @ ws @ [d] \<in> lang (Seq (Lit m) (Seq (Star (Sym S)) (Plus (Sym D))))"
    unfolding lang_Seq[of _ "Lit m"] by blast
  moreover from t have "t = (m @ ws @ [d]) @ rest" by simp
  ultimately show "re_match (Seq (Lit m) (Seq (Star (Sym S)) (Plus (Sym D)))) t"
    unfolding re_match_lang by blast
qed

lemma is_caption_iff: "is_caption U t \<longleftrightarrow> starts_caption U t"
  unfolding is_caption_def figure_pattern_def table_pattern_def re_match_marker
    starts_caption_def FIGURE_MARKER_def TABLE_MARKER_def
  by blast

lemma not_caption_empty: "\<not> is_caption U []"
  by (simp add: is_caption_def figure_pattern_def table_pattern_def Chr_def)

lemma check_caption_find:
  assumes "is_caption U (strip (p_text p))"
  shows "check_caption U p =
           (case find caption_size_off (nonblank_runs p) of
              None \<Rightarrow> []
            | Some r \<Rightarrow> [caption_size_issue (strip (p_text p)) (the (r_font_size r))])"
proof -
  from assms not_caption_empty[of U] have "strip (p_text p) \<noteq> []" by auto
  with assms show ?thesis
    by (simp add: check_caption_def check_caption_runs_find nonblank_runs_def)
qed

lemma is_caption_ris: "is_caption basic_unicode (strip ris_text)"
  by (simp add: is_caption_def figure_pattern_def Plus_def Chr_def basic_unicode_def
      ris_text_def string_defs)

lemma not_caption_fig: "\<not> is_caption basic_unicode (strip (u ''Fig. 1 Scheme''))"
  by (simp add: is_caption_def figure_pattern_def table_pattern_def Plus_def Chr_def
      basic_unicode_def string_defs)

lemma strip_ris: "strip ris_text \<noteq> []"
  by (simp add: ris_text_def string_defs)

text \<open>
  C7, as the specification states it, fails: the caption markers are the Ukrainian ones,
  and a paragraph that begins \<open>Fig. 1\<close> in Latin letters is no caption for the check. With
  its one run in 10 pt, two points from the caption size, it gets no
  \<open>CAPTION_SIZE_MISMATCH\<close>.
\<close>

theorem latin_caption_counterexample:
  "take 6 (p_text fig_caption) = u ''Fig. 1''
   \<and> map r_font_size (nonblank_runs fig_caption) = [Some 127000]
   \<and> pt 127000 = 10 \<and> CAPTION_SIZE_PT = 12
   \<and> paragraphs fig_doc = [fig_caption]
   \<and> check_captions basic_unicode fig_doc = []"
proof -
  have "check_caption basic_unicode fig_caption = []"
    using not_caption_fig by (simp add: check_caption_def fig_caption_def body_line_def Let_def)
  then have "check_captions basic_unicode fig_doc = []"
    by (simp add: check_captions_def fig_doc_def)
  moreover have "take 6 (p_text fig_caption) = u ''Fig. 1''"
    "map r_font_size (nonblank_runs fig_caption) = [Some 127000]"
    by (simp_all add: fig_caption_def body_line_def nonblank_runs_def string_defs)
  moreover have "pt 127000 = 10" "CAPTION_SIZE_PT = 12"
    by (simp_all add: pt_10 CAPTION_SIZE_PT_def)
  ultimately show ?thesis by (simp add: fig_doc_def)
qed

lemma check_captions_eq:
  "check_captions U doc =
     concat (map (\<lambda>p. if starts_caption U (strip (p_text p))
                       then (case find caption_size_off (nonblank_runs p) of
                               None \<Rightarrow> []
                             | Some r \<Rightarrow>
                                 [caption_size_issue (strip (p_text p)) (the (r_font_size r))])
                       else [])
               (paragraphs doc))"
proof -
  have "check_caption U p =
          (if starts_caption U (strip (p_text p))
           then (case find caption_size_off (nonblank_runs p) of
                   None \<Rightarrow> []
                 | Some r \<Rightarrow> [caption_size_issue (strip (p_text p)) (the (r_font_size r))])
           else [])" for p
  proof (cases "is_caption U (strip (p_text p))")
    case True
    then show ?thesis by (simp add: check_caption_find is_caption_iff[symmetric])
  next
    case False
    then show ?thesis by (simp add: check_caption_def Let_def is_caption_iff[symmetric])
  qed
  then have "check_caption U =
          (\<lambda>p. if starts_caption U (strip (p_text p))
           then (case find caption_size_off (nonblank_runs p) of
                   None \<Rightarrow> []
                 | Some r \<Rightarrow> [caption_size_issue (strip (p_text p)) (the (r_font_size r))])
           else [])"
    by (intro ext)
  then show ?thesis by (simp only: check_captions_def)
qed

lemma find_length:
  "length (case find P xs of None \<Rightarrow> [] | Some x \<Rightarrow> [f x]) = (if list_ex P xs then 1 else 0)"
  by (induction xs) simp_all

lemma find_is_Nil:
  "(case find P xs of None \<Rightarrow> [] | Some x \<Rightarrow> [f x]) = [] \<longleftrightarrow> \<not> list_ex P xs"
  by (induction xs) simp_all

lemma concat_map_Nil: "(\<And>p. p \<in> set ps \<Longrightarrow> F p = []) \<Longrightarrow> concat (map F ps) = []"
  by (induction ps) simp_all

lemma count_first_findings:
  "length (concat (map (\<lambda>p. if A p then (case find P (g p) of None \<Rightarrow> []
                                          | Some r \<Rightarrow> [f p r]) else []) ps))
     = length (filter (\<lambda>p. A p \<and> list_ex P (g p)) ps)"
  by (induction ps) (simp_all add: find_length find_is_Nil)

lemma starts_caption_ris: "starts_caption basic_unicode (strip ris_text)"
proof -
  have "strip ris_text = FIGURE_MARKER @ [32] @ 49 # u '' Scheme''"
    by (simp add: ris_text_def FIGURE_MARKER_def string_defs)
  moreover have "list_all isspace [32]" "isdecimal basic_unicode 49"
    by (simp_all add: isspace_def basic_unicode_def)
  ultimately show ?thesis unfolding starts_caption_def by blast
qed

lemma starts_caption_tab: "starts_caption basic_unicode (strip tab_text)"
proof -
  have "strip tab_text = TABLE_MARKER @ [32] @ 50 # u '' Data''"
    by (simp add: tab_text_def TABLE_MARKER_def string_defs)
  moreover have "list_all isspace [32]" "isdecimal basic_unicode 50"
    by (simp_all add: isspace_def basic_unicode_def)
  ultimately show ?thesis unfolding starts_caption_def by blast
qed

lemma not_starts_caption_fig: "\<not> starts_caption basic_unicode (strip (u ''Fig. 1 Scheme''))"
  using not_caption_fig by (simp add: is_caption_iff)

lemma not_starts_caption_empty: "\<not> starts_caption U []"
  using not_caption_empty by (simp add: is_caption_iff)

text \<open>
  C7, amended. A caption is a paragraph whose stripped text begins with the Ukrainian
  figure marker (\<open>U+0420 U+0438 U+0441\<close> and a full stop) or table marker
  (\<open>U+0422 U+0430 U+0431 U+043B U+0438 U+0446 U+044F\<close>), then whitespace, possibly none,
  then a digit. The captions check goes through all paragraphs of the document in order
  and emits, for each caption that has a non-blank run whose font size is set, not zero
  and more than 0.5 pt from 12 pt, exactly one \<open>CAPTION_SIZE_MISMATCH\<close> \<open>WARNING\<close>, which
  gives the first 80 code points of the caption and the size of the first such run; it
  emits nothing else. So the number of its findings is the number of such captions, and
  it emits nothing when every non-blank run of every paragraph has 12 pt.
\<close>

theorem caption_size_findings:
  "check_captions U doc =
     concat (map (\<lambda>p. if starts_caption U (strip (p_text p))
                       then (case find caption_size_off (nonblank_runs p) of
                               None \<Rightarrow> []
                             | Some r \<Rightarrow>
                                 [\<lparr>code = ''CAPTION_SIZE_MISMATCH'', severity = WARNING,
                                   message = MSG_CAPTION_SIZE_MISMATCH,
                                   details = Some [(''caption'', DStr (take 80 (strip (p_text p)))),
                                                   (''size_pt'', DFloat (pt (the (r_font_size r))))]\<rparr>])
                       else [])
               (paragraphs doc))
   \<and> length (check_captions U doc)
       = length (filter (\<lambda>p. starts_caption U (strip (p_text p))
                              \<and> list_ex caption_size_off (nonblank_runs p))
                   (paragraphs doc))
   \<and> (list_all (\<lambda>p. list_all (\<lambda>r. r_font_size r = Some 152400) (nonblank_runs p))
         (paragraphs doc)
       \<longrightarrow> check_captions U doc = [])
   \<and> pt 152400 = CAPTION_SIZE_PT"
proof (intro conjI impI)
  show "check_captions U doc =
     concat (map (\<lambda>p. if starts_caption U (strip (p_text p))
                       then (case find caption_size_off (nonblank_runs p) of
                               None \<Rightarrow> []
                             | Some r \<Rightarrow>
                                 [\<lparr>code = ''CAPTION_SIZE_MISMATCH'', severity = WARNING,
                                   message = MSG_CAPTION_SIZE_MISMATCH,
                                   details = Some [(''caption'', DStr (take 80 (strip (p_text p)))),
                                                   (''size_pt'', DFloat (pt (the (r_font_size r))))]\<rparr>])
                       else [])
               (paragraphs doc))"
    unfolding check_captions_eq caption_size_issue_def by (rule refl)
  show "length (check_captions U doc)
       = length (filter (\<lambda>p. starts_caption U (strip (p_text p))
                              \<and> list_ex caption_size_off (nonblank_runs p))
                   (paragraphs doc))"
    unfolding check_captions_eq by (rule count_first_findings)
  show twelve: "pt 152400 = CAPTION_SIZE_PT"
    by (simp add: pt_12 CAPTION_SIZE_PT_def)
  assume all: "list_all (\<lambda>p. list_all (\<lambda>r. r_font_size r = Some 152400) (nonblank_runs p))
         (paragraphs doc)"
  have "find caption_size_off (nonblank_runs p) = None" if "p \<in> set (paragraphs doc)" for p
  proof -
    from all that have "\<forall>r \<in> set (nonblank_runs p). r_font_size r = Some 152400"
      by (simp add: list_all_iff)
    then have "\<forall>r \<in> set (nonblank_runs p). \<not> caption_size_off r"
      by (simp add: caption_size_off_def twelve fl_0)
    then show ?thesis by (simp add: find_None_iff)
  qed
  then have "concat (map (\<lambda>p. if starts_caption U (strip (p_text p))
                       then (case find caption_size_off (nonblank_runs p) of
                               None \<Rightarrow> []
                             | Some r \<Rightarrow>
                                 [caption_size_issue (strip (p_text p)) (the (r_font_size r))])
                       else [])
               (paragraphs doc)) = []"
    by (intro concat_map_Nil) simp
  then show "check_captions U doc = []"
    by (simp only: check_captions_eq)
qed

theorem caption_size_findings_witness:
  "map (\<lambda>p. strip (p_text p)) (paragraphs caption_doc)
     = [ris_text, [], tab_text, ris_text, u ''Fig. 1 Scheme'']
   \<and> map (\<lambda>p. map r_font_size (nonblank_runs p)) (paragraphs caption_doc)
     = [[Some 127000], [], [Some 127000], [Some 152400], [Some 127000]]
   \<and> starts_caption basic_unicode ris_text
   \<and> starts_caption basic_unicode tab_text
   \<and> \<not> starts_caption basic_unicode (u ''Fig. 1 Scheme'')
   \<and> pt 127000 = 10 \<and> pt 152400 = 12 \<and> CAPTION_SIZE_PT = 12
   \<and> check_captions basic_unicode caption_doc
       = [\<lparr>code = ''CAPTION_SIZE_MISMATCH'', severity = WARNING,
           message = MSG_CAPTION_SIZE_MISMATCH,
           details = Some [(''caption'', DStr ris_text), (''size_pt'', DFloat 10)]\<rparr>,
          \<lparr>code = ''CAPTION_SIZE_MISMATCH'', severity = WARNING,
           message = MSG_CAPTION_SIZE_MISMATCH,
           details = Some [(''caption'', DStr tab_text), (''size_pt'', DFloat 10)]\<rparr>]
   \<and> check_captions basic_unicode
        \<lparr>sections = [quiet_section], paragraphs = [ris_caption_12, empty_paragraph]\<rparr> = []"
proof -
  have strips: "strip ris_text = ris_text" "strip tab_text = tab_text"
    "strip (u ''Fig. 1 Scheme'') = u ''Fig. 1 Scheme''"
    by (simp_all add: ris_text_def tab_text_def string_defs)
  have texts: "map (\<lambda>p. strip (p_text p)) (paragraphs caption_doc)
     = [ris_text, [], tab_text, ris_text, u ''Fig. 1 Scheme'']"
    using strips
    by (simp add: caption_doc_def ris_caption_def tab_caption_def ris_caption_12_def
        fig_caption_def empty_paragraph_def body_line_def strip_def)
  have ne: "ris_text \<noteq> []" "tab_text \<noteq> []" "u ''Fig. 1 Scheme'' \<noteq> []"
    by (simp_all add: ris_text_def tab_text_def u_def)
  have runs: "nonblank_runs ris_caption = p_runs ris_caption"
    "nonblank_runs tab_caption = p_runs tab_caption"
    "nonblank_runs ris_caption_12 = p_runs ris_caption_12"
    "nonblank_runs fig_caption = p_runs fig_caption"
    "nonblank_runs empty_paragraph = []"
    using strips ne
    by (simp_all add: nonblank_runs_def ris_caption_def tab_caption_def ris_caption_12_def
        fig_caption_def empty_paragraph_def body_line_def)
  have sizes: "map (\<lambda>p. map r_font_size (nonblank_runs p)) (paragraphs caption_doc)
     = [[Some 127000], [], [Some 127000], [Some 152400], [Some 127000]]"
    by (simp add: caption_doc_def runs)
       (simp add: ris_caption_def tab_caption_def ris_caption_12_def fig_caption_def
        body_line_def)
  have caps: "starts_caption basic_unicode ris_text" "starts_caption basic_unicode tab_text"
    "\<not> starts_caption basic_unicode (u ''Fig. 1 Scheme'')"
    using starts_caption_ris starts_caption_tab not_starts_caption_fig
    by (simp_all add: strips)
  have off: "\<bar>fl (pt 127000 - CAPTION_SIZE_PT)\<bar> > 1 / 2"
    "\<not> \<bar>fl (pt 152400 - CAPTION_SIZE_PT)\<bar> > 1 / 2"
    by (simp_all add: pt_10 pt_12 CAPTION_SIZE_PT_def fl_0 fl_neg_numeral)
  have short: "take 80 ris_text = ris_text" "take 80 tab_text = tab_text"
    by (simp_all add: ris_text_def tab_text_def u_def)
  have p: "strip (p_text ris_caption) = ris_text" "strip (p_text tab_caption) = tab_text"
    "strip (p_text ris_caption_12) = ris_text" "strip (p_text empty_paragraph) = []"
    "strip (p_text fig_caption) = u ''Fig. 1 Scheme''"
    using strips
    by (simp_all add: ris_caption_def tab_caption_def ris_caption_12_def fig_caption_def
        empty_paragraph_def body_line_def strip_def)
  have f: "find caption_size_off (p_runs ris_caption)
        = Some \<lparr>r_text = ris_text, r_font_name = None, r_font_size = Some 127000,
                r_bold = None, r_italic = None\<rparr>"
    "find caption_size_off (p_runs tab_caption)
        = Some \<lparr>r_text = tab_text, r_font_name = None, r_font_size = Some 127000,
                r_bold = None, r_italic = None\<rparr>"
    "find caption_size_off (p_runs ris_caption_12) = None"
    using off
    by (simp_all add: ris_caption_def tab_caption_def ris_caption_12_def body_line_def
        caption_size_off_def)
  have a: "check_captions basic_unicode caption_doc
       = [\<lparr>code = ''CAPTION_SIZE_MISMATCH'', severity = WARNING,
           message = MSG_CAPTION_SIZE_MISMATCH,
           details = Some [(''caption'', DStr ris_text), (''size_pt'', DFloat 10)]\<rparr>,
          \<lparr>code = ''CAPTION_SIZE_MISMATCH'', severity = WARNING,
           message = MSG_CAPTION_SIZE_MISMATCH,
           details = Some [(''caption'', DStr tab_text), (''size_pt'', DFloat 10)]\<rparr>]"
    unfolding caption_size_findings[of basic_unicode caption_doc, THEN conjunct1]
    by (simp add: caption_doc_def p runs caps not_starts_caption_empty f short pt_10)
  have "list_all (\<lambda>p. list_all (\<lambda>r. r_font_size r = Some 152400) (nonblank_runs p))
         (paragraphs \<lparr>sections = [quiet_section], paragraphs = [ris_caption_12, empty_paragraph]\<rparr>)"
    by (simp add: runs) (simp add: ris_caption_12_def body_line_def)
  with caption_size_findings[of basic_unicode
      "\<lparr>sections = [quiet_section], paragraphs = [ris_caption_12, empty_paragraph]\<rparr>"]
  have b: "check_captions basic_unicode
        \<lparr>sections = [quiet_section], paragraphs = [ris_caption_12, empty_paragraph]\<rparr> = []"
    by blast
  have "pt 127000 = 10" "pt 152400 = 12" "CAPTION_SIZE_PT = 12"
    by (simp_all add: pt_10 pt_12 CAPTION_SIZE_PT_def)
  with texts sizes caps a b show ?thesis by (intro conjI)
qed

section \<open>Run-level font check\<close>

lemma observe_run_flags:
  "any_run (observe_run rules mb mi r f) = True"
  "bad_name (observe_run rules mb mi r f) = (bad_name f \<or> name_mismatch rules r)"
  "bad_size (observe_run rules mb mi r f) = (bad_size f \<or> size_mismatch rules r)"
  "bad_bold (observe_run rules mb mi r f) = (bad_bold f \<or> mb \<and> r_bold r \<noteq> Some True)"
  "bad_italic (observe_run rules mb mi r f) = (bad_italic f \<or> mi \<and> r_italic r \<noteq> Some True)"
  "unknown_font (observe_run rules mb mi r f) = (unknown_font f \<or> font_unset r)"
  by (auto simp: observe_run_def Let_def name_mismatch_def size_mismatch_def font_unset_def
      split: option.splits)

lemma scan_runs_flags:
  "any_run (scan_runs rules mb mi rs f)
     = (any_run f \<or> filter (\<lambda>r. strip (r_text r) \<noteq> []) rs \<noteq> [])"
  "bad_name (scan_runs rules mb mi rs f)
     = (bad_name f \<or> list_ex (name_mismatch rules) (filter (\<lambda>r. strip (r_text r) \<noteq> []) rs))"
  "bad_size (scan_runs rules mb mi rs f)
     = (bad_size f \<or> list_ex (size_mismatch rules) (filter (\<lambda>r. strip (r_text r) \<noteq> []) rs))"
  "bad_bold (scan_runs rules mb mi rs f)
     = (bad_bold f \<or> mb \<and> list_ex (\<lambda>r. r_bold r \<noteq> Some True)
                             (filter (\<lambda>r. strip (r_text r) \<noteq> []) rs))"
  "bad_italic (scan_runs rules mb mi rs f)
     = (bad_italic f \<or> mi \<and> list_ex (\<lambda>r. r_italic r \<noteq> Some True)
                               (filter (\<lambda>r. strip (r_text r) \<noteq> []) rs))"
  "unknown_font (scan_runs rules mb mi rs f)
     = (unknown_font f \<or> list_ex font_unset (filter (\<lambda>r. strip (r_text r) \<noteq> []) rs))"
  by (induction rs arbitrary: f; simp add: observe_run_flags; blast)+

lemma check_paragraph_font_eq:
  assumes "strip (p_text p) \<noteq> []"
  shows "check_paragraph_font p rules must_bold must_italic w =
      (if list_ex (name_mismatch rules) (nonblank_runs p)
       then [font_name_issue rules w (strip (p_text p))] else [])
    @ (if list_ex (size_mismatch rules) (nonblank_runs p)
       then [font_size_issue rules w (strip (p_text p))] else [])
    @ (if must_bold \<and> list_ex (\<lambda>r. r_bold r \<noteq> Some True) (nonblank_runs p)
       then [not_bold_issue w (strip (p_text p))] else [])
    @ (if must_italic \<and> list_ex (\<lambda>r. r_italic r \<noteq> Some True) (nonblank_runs p)
       then [not_italic_issue w (strip (p_text p))] else [])
    @ (if (nonblank_runs p = [] \<or> list_ex font_unset (nonblank_runs p))
          \<and> \<not> list_ex (name_mismatch rules) (nonblank_runs p)
          \<and> \<not> list_ex (size_mismatch rules) (nonblank_runs p)
       then [font_unknown_issue w] else [])"
proof -
  define seen where "seen = scan_runs rules must_bold must_italic (p_runs p) no_flags"
  define f where "f = (if \<not> any_run seen then seen\<lparr>unknown_font := True\<rparr> else seen)"
  have seen: "any_run seen = (nonblank_runs p \<noteq> [])"
    "bad_name seen = list_ex (name_mismatch rules) (nonblank_runs p)"
    "bad_size seen = list_ex (size_mismatch rules) (nonblank_runs p)"
    "bad_bold seen = (must_bold \<and> list_ex (\<lambda>r. r_bold r \<noteq> Some True) (nonblank_runs p))"
    "bad_italic seen = (must_italic \<and> list_ex (\<lambda>r. r_italic r \<noteq> Some True) (nonblank_runs p))"
    "unknown_font seen = list_ex font_unset (nonblank_runs p)"
    by (simp_all add: seen_def scan_runs_flags no_flags_def nonblank_runs_def)
  have f: "bad_name f = bad_name seen" "bad_size f = bad_size seen"
    "bad_bold f = bad_bold seen" "bad_italic f = bad_italic seen"
    "unknown_font f = (nonblank_runs p = [] \<or> unknown_font seen)"
    by (auto simp: f_def seen(1))
  have "check_paragraph_font p rules must_bold must_italic w =
      (if bad_name f then [font_name_issue rules w (strip (p_text p))] else [])
    @ (if bad_size f then [font_size_issue rules w (strip (p_text p))] else [])
    @ (if must_bold \<and> bad_bold f then [not_bold_issue w (strip (p_text p))] else [])
    @ (if must_italic \<and> bad_italic f then [not_italic_issue w (strip (p_text p))] else [])
    @ (if unknown_font f \<and> \<not> (bad_name f \<or> bad_size f) then [font_unknown_issue w] else [])"
    using assms unfolding check_paragraph_font_def Let_def f_def seen_def by simp
  then show ?thesis
    unfolding f seen by (simp cong: if_cong)
qed

lemma unset_line_runs:
  "nonblank_runs unset_line =
     [\<lparr>r_text = u ''ON THESES'', r_font_name = Some REQUIRED_FONT,
       r_font_size = Some 177800, r_bold = None, r_italic = None\<rparr>]"
  "strip (p_text unset_line) = u ''ON THESES''"
  by (simp_all add: nonblank_runs_def unset_line_def string_defs)

lemma styled_line_runs:
  "nonblank_runs styled_line =
     [\<lparr>r_text = u ''ON THESES'', r_font_name = None, r_font_size = None,
       r_bold = Some True, r_italic = None\<rparr>]"
  "strip (p_text styled_line) = u ''ON THESES''"
  by (simp_all add: nonblank_runs_def styled_line_def string_defs)

lemma title_not_blank: "u ''ON THESES'' \<noteq> []"
  by (simp add: u_def)

text \<open>
  C8, as the specification states it, fails for bold and italic: the check tests
  \<open>r.bold is not True\<close>, so a run that does not set bold counts as not bold. A header line whose
  run has the required font and size and sets neither flag gets the \<open>ERROR\<close> findings
  \<open>HEADER_NOT_BOLD\<close> and, when italic is required, \<open>AUTHORS_NOT_ITALIC\<close>, and no
  \<open>FONT_UNKNOWN\<close>.
\<close>

theorem unset_bold_counterexample:
  "map r_bold (nonblank_runs unset_line) = [None]
   \<and> map r_italic (nonblank_runs unset_line) = [None]
   \<and> check_paragraph_font unset_line default_rules True True ''authors''
       = [not_bold_issue ''authors'' (u ''ON THESES''),
          not_italic_issue ''authors'' (u ''ON THESES'')]
   \<and> code (not_bold_issue ''authors'' (u ''ON THESES'')) = ''HEADER_NOT_BOLD''
   \<and> severity (not_bold_issue ''authors'' (u ''ON THESES'')) = ERROR
   \<and> code (not_italic_issue ''authors'' (u ''ON THESES'')) = ''AUTHORS_NOT_ITALIC''
   \<and> severity (not_italic_issue ''authors'' (u ''ON THESES'')) = ERROR"
proof -
  have "strip (p_text unset_line) \<noteq> []"
    by (simp add: unset_line_runs title_not_blank)
  then have "check_paragraph_font unset_line default_rules True True ''authors''
       = [not_bold_issue ''authors'' (u ''ON THESES''),
          not_italic_issue ''authors'' (u ''ON THESES'')]"
    by (simp add: check_paragraph_font_eq unset_line_runs name_mismatch_def size_mismatch_def
        font_unset_def default_rules_def REQUIRED_SIZE_PT_def FONT_SIZE_TOL_def pt_14 fl_0)
  then show ?thesis
    by (simp add: unset_line_runs not_bold_issue_def not_italic_issue_def)
qed

text \<open>
  C8, amended. In the run-level font check, font name and font size are three-state: a
  non-blank run that does not set its name, or its size, is not a mismatch of that
  attribute; it marks the paragraph unknown, as does a paragraph without non-blank runs,
  and an unknown paragraph gets the \<open>WARNING\<close> \<open>FONT_UNKNOWN\<close> exactly when it gets
  neither \<open>FONT_NAME_MISMATCH\<close> nor \<open>FONT_SIZE_MISMATCH\<close>. Bold and italic are two-state:
  when bold is required, a non-blank run whose bold flag is not \<open>True\<close> (unset or \<open>False\<close>)
  yields the \<open>ERROR\<close> \<open>HEADER_NOT_BOLD\<close>, and likewise italic and \<open>AUTHORS_NOT_ITALIC\<close>.
  Each finding appears at most once for the paragraph.
\<close>

theorem paragraph_font_findings:
  assumes "strip (p_text p) \<noteq> []"
  shows "check_paragraph_font p rules must_bold must_italic w =
      (if list_ex (name_mismatch rules) (nonblank_runs p)
       then [font_name_issue rules w (strip (p_text p))] else [])
    @ (if list_ex (size_mismatch rules) (nonblank_runs p)
       then [font_size_issue rules w (strip (p_text p))] else [])
    @ (if must_bold \<and> list_ex (\<lambda>r. r_bold r \<noteq> Some True) (nonblank_runs p)
       then [not_bold_issue w (strip (p_text p))] else [])
    @ (if must_italic \<and> list_ex (\<lambda>r. r_italic r \<noteq> Some True) (nonblank_runs p)
       then [not_italic_issue w (strip (p_text p))] else [])
    @ (if (nonblank_runs p = [] \<or> list_ex font_unset (nonblank_runs p))
          \<and> \<not> list_ex (name_mismatch rules) (nonblank_runs p)
          \<and> \<not> list_ex (size_mismatch rules) (nonblank_runs p)
       then [font_unknown_issue w] else [])
    \<and> (r_font_name r = None \<longrightarrow> \<not> name_mismatch rules r \<and> font_unset r)
    \<and> (r_font_size r = None \<longrightarrow> \<not> size_mismatch rules r \<and> font_unset r)
    \<and> code (font_unknown_issue w) = ''FONT_UNKNOWN''
    \<and> severity (font_unknown_issue w) = WARNING
    \<and> severity (font_name_issue rules w t) = ERROR
    \<and> severity (font_size_issue rules w t) = ERROR
    \<and> code (not_bold_issue w t) = ''HEADER_NOT_BOLD''
    \<and> severity (not_bold_issue w t) = ERROR
    \<and> code (not_italic_issue w t) = ''AUTHORS_NOT_ITALIC''
    \<and> severity (not_italic_issue w t) = ERROR"
  using check_paragraph_font_eq[OF assms, of rules must_bold must_italic w]
  by (simp add: name_mismatch_def size_mismatch_def font_unset_def font_unknown_issue_def
      font_name_issue_def font_size_issue_def not_bold_issue_def not_italic_issue_def)

theorem paragraph_font_findings_witness:
  "strip (p_text styled_line) \<noteq> []
   \<and> map r_font_name (nonblank_runs styled_line) = [None]
   \<and> map r_font_size (nonblank_runs styled_line) = [None]
   \<and> check_paragraph_font styled_line default_rules True False ''title''
       = [font_unknown_issue ''title'']
   \<and> severity (font_unknown_issue ''title'') = WARNING"
proof -
  have ne: "strip (p_text styled_line) \<noteq> []"
    by (simp add: styled_line_runs title_not_blank)
  from paragraph_font_findings[OF ne, of default_rules True False "''title''", THEN conjunct1]
  have "check_paragraph_font styled_line default_rules True False ''title''
       = [font_unknown_issue ''title'']"
    by (simp add: styled_line_runs name_mismatch_def size_mismatch_def font_unset_def)
  with ne show ?thesis
    by (simp add: styled_line_runs font_unknown_issue_def)
qed

section \<open>Length heuristic\<close>

text \<open>
  \<open>sub_ws\<close> collapses whitespace: the code points that are not whitespace are kept, in
  order; whitespace remains only as single spaces; no two whitespace code points are
  adjacent.
\<close>

lemma isspace_32: "isspace 32"
  by (simp add: isspace_def)

lemma sub_ws_keeps_text: "filter (\<lambda>c. \<not> isspace c) (sub_ws b s) = filter (\<lambda>c. \<not> isspace c) s"
  by (induction s arbitrary: b) (simp_all add: isspace_32)

lemma sub_ws_only_spaces: "c \<in> set (sub_ws b s) \<Longrightarrow> isspace c \<Longrightarrow> c = 32"
  by (induction s arbitrary: b) (auto split: if_splits)

lemma sub_ws_in_run_head: "sub_ws True s = [] \<or> \<not> isspace (hd (sub_ws True s))"
  by (induction s) simp_all

lemma sub_ws_no_adjacent:
  "successively (\<lambda>x y. \<not> (isspace x \<and> isspace y)) (sub_ws b s)"
proof (induction s arbitrary: b)
  case Nil
  then show ?case by simp
next
  case (Cons c s)
  show ?case
  proof (cases "isspace c")
    case True
    have "successively (\<lambda>x y. \<not> (isspace x \<and> isspace y)) (32 # sub_ws True s)"
      using Cons[of True] sub_ws_in_run_head[of s]
      by (cases "sub_ws True s") (simp_all add: successively_Cons)
    with True Cons[of True] show ?thesis by simp
  next
    case False
    with Cons[of False] show ?thesis
      by (cases "sub_ws False s") (simp_all add: successively_Cons)
  qed
qed

subsection \<open>The collapsed text is the words joined by single spaces\<close>

lemma split_ws_spaces: "list_all isspace ws \<Longrightarrow> split_ws w ws = (if w = [] then [] else [w])"
  by (induction ws arbitrary: w) simp_all

lemma split_ws_Nil_iff: "split_ws w t = [] \<longleftrightarrow> w = [] \<and> list_all isspace t"
  by (induction t arbitrary: w) simp_all

lemma split_ws_trailing: "list_all isspace ws \<Longrightarrow> split_ws w (t @ ws) = split_ws w t"
  by (induction t arbitrary: w) (simp_all add: split_ws_spaces)

lemma split_ws_leading: "split_ws [] (dropWhile isspace t) = split_ws [] t"
  by (induction t) simp_all

lemma split_ws_plain:
  "(\<And>c. c \<in> set x \<Longrightarrow> \<not> isspace c) \<Longrightarrow> split_ws w (x @ rest) = split_ws (w @ x) rest"
  by (induction x arbitrary: w) simp_all

lemma trailing_spaces:
  "t = rev (dropWhile isspace (rev t)) @ rev (takeWhile isspace (rev t))"
proof -
  have "rev t = takeWhile isspace (rev t) @ dropWhile isspace (rev t)" by simp
  then have "rev (rev t) = rev (takeWhile isspace (rev t) @ dropWhile isspace (rev t))"
    by (rule arg_cong)
  then show ?thesis by (simp only: rev_rev_ident rev_append)
qed

text \<open>Leading and trailing whitespace does not change the words.\<close>

lemma split_ws_strip: "split_ws [] (strip s) = split_ws [] s"
proof -
  define d where "d = dropWhile isspace s"
  have "list_all isspace (rev (takeWhile isspace (rev d)))"
    by (simp add: list_all_iff) (metis set_takeWhileD)
  then have "split_ws [] (rev (dropWhile isspace (rev d)) @ rev (takeWhile isspace (rev d)))
      = split_ws [] (rev (dropWhile isspace (rev d)))"
    by (rule split_ws_trailing)
  then have "split_ws [] d = split_ws [] (rev (dropWhile isspace (rev d)))"
    by (simp only: trailing_spaces[symmetric])
  then show ?thesis
    by (simp add: strip_def d_def split_ws_leading)
qed

text \<open>A stripped text neither begins nor ends with whitespace.\<close>

lemma strip_ends:
  "strip s = [] \<or> (\<not> isspace (hd (strip s)) \<and> \<not> isspace (last (strip s)))"
proof (cases "strip s = []")
  case True
  then show ?thesis by simp
next
  case False
  define d where "d = dropWhile isspace s"
  have st: "strip s = rev (dropWhile isspace (rev d))"
    by (simp add: strip_def d_def)
  with False have ne: "dropWhile isspace (rev d) \<noteq> []" by simp
  then have "\<not> isspace (hd (dropWhile isspace (rev d)))"
    by (rule hd_dropWhile)
  with ne have l: "\<not> isspace (last (strip s))"
    by (simp add: st last_rev)
  from False st have "d \<noteq> []" by auto
  then have "\<not> isspace (hd d)"
    unfolding d_def by (rule hd_dropWhile)
  moreover have "hd d = hd (strip s)"
    using False trailing_spaces[of d] st by (metis hd_append2)
  ultimately show ?thesis using l by simp
qed

lemma join_Cons: "ys \<noteq> [] \<Longrightarrow> join sep (x # ys) = x @ sep @ join sep ys"
  by (cases ys) simp_all

lemma join_split_ws:
  "t = [] \<or> \<not> isspace (last t)
     \<Longrightarrow> join [32] (split_ws w t) = (if w = [] then sub_ws True t else w @ sub_ws False t)"
proof (induction t arbitrary: w)
  case Nil
  then show ?case by simp
next
  case (Cons c cs)
  show ?case
  proof (cases "isspace c")
    case True
    with Cons.prems have cs: "cs \<noteq> []" "\<not> isspace (last cs)"
      by (auto split: if_splits)
    then have "\<not> list_all isspace cs"
      by (auto simp: list_all_iff)
    then have ne: "split_ws [] cs \<noteq> []"
      by (simp add: split_ws_Nil_iff)
    from cs Cons.IH[of "[]"] have "join [32] (split_ws [] cs) = sub_ws True cs"
      by simp
    with True ne show ?thesis
      by (simp add: join_Cons)
  next
    case False
    from Cons.prems have "cs = [] \<or> \<not> isspace (last cs)"
      by (auto split: if_splits)
    from Cons.IH[OF this, of "w @ [c]"] False show ?thesis
      by simp
  qed
qed

lemma sub_ws_head: "t = [] \<or> \<not> isspace (hd t) \<Longrightarrow> sub_ws False t = sub_ws True t"
  by (cases t) auto

text \<open>
  Stripping a text and replacing every whitespace run by one space gives the words of the
  text, in order, with one space between neighbours.
\<close>

lemma collapse_is_words: "sub_ws False (strip s) = join [32] (split_ws [] s)"
proof -
  from strip_ends[of s] have "sub_ws False (strip s) = sub_ws True (strip s)"
    by (intro sub_ws_head) auto
  also from strip_ends[of s] have "\<dots> = join [32] (split_ws [] (strip s))"
    using join_split_ws[of "strip s" "[]"] by auto
  finally show ?thesis by (simp only: split_ws_strip)
qed

lemma text_chars_words:
  "text_chars doc = length (join [32] (split_ws [] (join [10] (map p_text (paragraphs doc)))))"
  by (simp add: text_chars_def collapse_is_words)

subsection \<open>The examples\<close>

lemma text_chars_two_blocks:
  assumes "0 < n" "0 < m"
  shows "text_chars (two_blocks_doc n m) = n + m + 1"
proof -
  have a: "split_ws w (replicate n 97 @ rest) = split_ws (w @ replicate n 97) rest" for w rest
    by (rule split_ws_plain) (auto simp: isspace_def)
  have b: "split_ws w (replicate m 98 @ rest) = split_ws (w @ replicate m 98) rest" for w rest
    by (rule split_ws_plain) (auto simp: isspace_def)
  have sp: "isspace 32" "isspace 9" "isspace 10"
    by (simp_all add: isspace_def)
  from assms have ne: "replicate n (97::nat) \<noteq> []" "replicate m (98::nat) \<noteq> []"
    by simp_all
  have "join [10] (map p_text (paragraphs (two_blocks_doc n m)))
      = 32 # (replicate n 97 @ 32 # 9 # 10 # (replicate m 98 @ [10, 32]))"
    by (simp add: two_blocks_doc_def body_line_def)
  then have "split_ws [] (join [10] (map p_text (paragraphs (two_blocks_doc n m))))
      = [replicate n 97, replicate m 98]"
    using ne by (simp add: sp a b)
  then show ?thesis
    by (simp add: text_chars_words)
qed

lemma words_of_lines:
  "split_ws [] (join [10] (replicate (Suc k) [97, 32])) = replicate (Suc k) [97]"
proof (induction k)
  case 0
  show ?case by (simp add: isspace_def)
next
  case (Suc k)
  have "join [10] (replicate (Suc (Suc k)) [97, 32])
      = 97 # 32 # 10 # join [10] (replicate (Suc k) [97, 32])"
    by simp
  then show ?case
    using Suc by (simp add: isspace_def)
qed

lemma length_join_letters: "length (join [32] (replicate (Suc k) [97])) = 2 * k + 1"
  by (induction k) simp_all

lemma text_chars_words_doc: "text_chars (words_doc (Suc k)) = 2 * k + 1"
proof -
  have "map p_text (paragraphs (words_doc (Suc k))) = replicate (Suc k) [97, 32]"
    unfolding words_doc_def by (simp add: body_line_def)
  then show ?thesis
    by (simp only: text_chars_words words_of_lines length_join_letters)
qed

text \<open>
  C9. The length heuristic counts the code points of the paragraph texts joined by line
  breaks, stripped, with every whitespace run collapsed to one space: that is, of the
  words of all paragraphs with one space between neighbours. A count below 800 yields the
  \<open>WARNING\<close> \<open>LENGTH_TOO_SHORT\<close>, a count above 6500 the \<open>WARNING\<close> \<open>LENGTH_TOO_LONG\<close>, and
  nothing else is reported: a count of 500 yields \<open>LENGTH_TOO_SHORT\<close> alone, one of 7000
  \<open>LENGTH_TOO_LONG\<close> alone, one of 3000 no finding.
\<close>

theorem length_heuristic_findings:
  "text_chars doc = length (join [32] (split_ws [] (join [10] (map p_text (paragraphs doc)))))
   \<and> check_length_heuristic doc =
       (if text_chars doc < 800 then [length_too_short_issue (text_chars doc)] else [])
     @ (if text_chars doc > 6500 then [length_too_long_issue (text_chars doc)] else [])
   \<and> code (length_too_short_issue n) = ''LENGTH_TOO_SHORT''
   \<and> severity (length_too_short_issue n) = WARNING
   \<and> code (length_too_long_issue n) = ''LENGTH_TOO_LONG''
   \<and> severity (length_too_long_issue n) = WARNING
   \<and> (text_chars doc = 500 \<longrightarrow> map code (check_length_heuristic doc) = [''LENGTH_TOO_SHORT''])
   \<and> (text_chars doc = 7000 \<longrightarrow> map code (check_length_heuristic doc) = [''LENGTH_TOO_LONG''])
   \<and> (text_chars doc = 3000 \<longrightarrow> check_length_heuristic doc = [])"
proof -
  have eq: "check_length_heuristic doc =
       (if text_chars doc < 800 then [length_too_short_issue (text_chars doc)] else [])
     @ (if text_chars doc > 6500 then [length_too_long_issue (text_chars doc)] else [])"
    by (simp add: check_length_heuristic_def Let_def MIN_TEXT_CHARS_def MAX_TEXT_CHARS_def)
  have codes: "code (length_too_short_issue n) = ''LENGTH_TOO_SHORT''"
    "severity (length_too_short_issue n) = WARNING"
    "code (length_too_long_issue n) = ''LENGTH_TOO_LONG''"
    "severity (length_too_long_issue n) = WARNING" for n
    by (simp_all add: length_too_short_issue_def length_too_long_issue_def)
  have "text_chars doc = 500 \<longrightarrow> map code (check_length_heuristic doc) = [''LENGTH_TOO_SHORT'']"
    "text_chars doc = 7000 \<longrightarrow> map code (check_length_heuristic doc) = [''LENGTH_TOO_LONG'']"
    "text_chars doc = 3000 \<longrightarrow> check_length_heuristic doc = []"
    by (simp_all add: eq codes)
  with eq codes text_chars_words[of doc] show ?thesis by (intro conjI)
qed

theorem length_heuristic_findings_witness:
  "map p_text (paragraphs (two_blocks_doc 2 3)) = [[32, 97, 97, 32, 9], [98, 98, 98, 10, 32]]
   \<and> join [32] (split_ws [] (join [10] (map p_text (paragraphs (two_blocks_doc 2 3)))))
       = [97, 97, 32, 98, 98, 98]
   \<and> text_chars (two_blocks_doc 2 3) = 6
   \<and> text_chars (two_blocks_doc 249 250) = 500
   \<and> map code (check_length_heuristic (two_blocks_doc 249 250)) = [''LENGTH_TOO_SHORT'']
   \<and> text_chars (two_blocks_doc 3499 3500) = 7000
   \<and> map code (check_length_heuristic (two_blocks_doc 3499 3500)) = [''LENGTH_TOO_LONG'']
   \<and> text_chars (two_blocks_doc 1499 1500) = 3000
   \<and> check_length_heuristic (two_blocks_doc 1499 1500) = []
   \<and> length (filter (\<lambda>c. \<not> isspace c) (concat (map p_text (paragraphs (words_doc 401))))) = 401
   \<and> text_chars (words_doc 401) = 801
   \<and> check_length_heuristic (words_doc 401) = []"
proof -
  note inst = length_heuristic_findings
  have small: "map p_text (paragraphs (two_blocks_doc 2 3))
      = [[32, 97, 97, 32, 9], [98, 98, 98, 10, 32]]"
    by (simp add: two_blocks_doc_def body_line_def numeral_eq_Suc)
  then have words: "join [32] (split_ws [] (join [10] (map p_text (paragraphs (two_blocks_doc 2 3)))))
       = [97, 97, 32, 98, 98, 98]"
    by (simp add: isspace_def)
  with inst[of "two_blocks_doc 2 3", THEN conjunct1]
  have six: "text_chars (two_blocks_doc 2 3) = 6" by simp
  have t: "text_chars (two_blocks_doc 249 250) = 500"
    "text_chars (two_blocks_doc 3499 3500) = 7000"
    "text_chars (two_blocks_doc 1499 1500) = 3000"
    by (simp_all add: text_chars_two_blocks)
  have w: "text_chars (words_doc 401) = 801"
    using text_chars_words_doc[of 400] by simp
  have letters: "length (filter (\<lambda>c. \<not> isspace c)
      (concat (map p_text (paragraphs (words_doc 401))))) = 401"
  proof -
    have "length (filter (\<lambda>c. \<not> isspace c) (concat (replicate k [97, 32]))) = k" for k
      by (induction k) (simp_all add: isspace_def)
    then show ?thesis
      by (simp add: words_doc_def body_line_def)
  qed
  from inst[of "two_blocks_doc 249 250"] t(1)
  have a: "map code (check_length_heuristic (two_blocks_doc 249 250)) = [''LENGTH_TOO_SHORT'']"
    by blast
  from inst[of "two_blocks_doc 3499 3500"] t(2)
  have b: "map code (check_length_heuristic (two_blocks_doc 3499 3500)) = [''LENGTH_TOO_LONG'']"
    by blast
  from inst[of "two_blocks_doc 1499 1500"] t(3)
  have c: "check_length_heuristic (two_blocks_doc 1499 1500) = []"
    by blast
  from inst[of "words_doc 401", THEN conjunct2, THEN conjunct1] w
  have d: "check_length_heuristic (words_doc 401) = []"
    by simp
  from small words six t a b c letters w d show ?thesis by (intro conjI)
qed

end
